theory Spec2Isabelle
  imports Main "HOL-Library.Word"
begin

section \<open>Basic types of the aio layer\<close>

type_synonym u64 = "64 word"
type_synonym byte = "8 word"

text \<open>\<^verbatim>\<open>aio_base::nosize\<close> is \<^verbatim>\<open>static_cast<uint64_t>(-1)\<close>.\<close>

definition nosize :: u64 where
  "nosize = - 1"

datatype aio_result = aio_ok | aio_wait | aio_error

text \<open>
  Modelled from the spec: \<^verbatim>\<open>nonowning_buffer\<close> (its header is not part of the sources).
  A buffer is a base pointer, a fixed capacity and the bytes filled in so far; \<^verbatim>\<open>append\<close>
  adds at the fill cursor, \<^verbatim>\<open>clear\<close> resets the fill, and the buffer converts to
  \<^verbatim>\<open>true\<close> when it holds at least one byte.
\<close>

record nonowning_buffer =
  nb_ptr :: u64
  nb_capacity :: u64
  nb_data :: "byte list"

definition nb_default :: nonowning_buffer where
  "nb_default = \<lparr>nb_ptr = 0, nb_capacity = 0, nb_data = []\<rparr>"

definition nb_size :: "nonowning_buffer \<Rightarrow> u64" where
  "nb_size b = of_nat (length (nb_data b))"

definition nb_empty :: "nonowning_buffer \<Rightarrow> bool" where
  "nb_empty b = (nb_data b = [])"

definition nb_append :: "nonowning_buffer \<Rightarrow> byte list \<Rightarrow> nonowning_buffer" where
  "nb_append b bs = b\<lparr>nb_data := nb_data b @ bs\<rparr>"

definition nb_clear :: "nonowning_buffer \<Rightarrow> nonowning_buffer" where
  "nb_clear b = b\<lparr>nb_data := []\<rparr>"

text \<open>
  A \<^verbatim>\<open>buffer_lease\<close> is a buffer and the back pointer to its pool; there is one pool, so
  the pointer is modelled by whether it is set. The default lease owns nothing.
\<close>

record buffer_lease =
  l_buffer :: nonowning_buffer
  l_pool :: bool

definition lease_default :: buffer_lease where
  "lease_default = \<lparr>l_buffer = nb_default, l_pool = False\<rparr>"

text \<open>\<^verbatim>\<open>explicit operator bool() const { return pool_ != nullptr; }\<close>\<close>

definition lease_bool :: "buffer_lease \<Rightarrow> bool" where
  "lease_bool l = l_pool l"

section \<open>The waitable base\<close>

text \<open>
  Waiters are identified by a number. \<^verbatim>\<open>add_waiter\<close> appends;
  \<^verbatim>\<open>signal_availibility\<close> takes the last waiter off the list (the callback it then
  invokes belongs to the waiter and is not part of the waitable's state);
  \<^verbatim>\<open>remove_waiters\<close> clears the list.
\<close>

type_synonym waiter = nat

definition add_waiter :: "waiter \<Rightarrow> waiter list \<Rightarrow> waiter list" where
  "add_waiter h ws = ws @ [h]"

definition signal_availibility :: "waiter list \<Rightarrow> waiter list" where
  "signal_availibility ws = butlast ws"

definition remove_waiter :: "waiter \<Rightarrow> waiter list \<Rightarrow> waiter list" where
  "remove_waiter h ws = filter (\<lambda>x. x \<noteq> h) ws"

section \<open>The reader base class\<close>

text \<open>
  The fields of \<^verbatim>\<open>reader_base\<close> with their default member initialisers: the four
  sizes start as \<^verbatim>\<open>nosize\<close>, the three flags as \<^verbatim>\<open>false\<close>. The constructor stores
  \<^verbatim>\<open>max_buffers ? max_buffers : 1\<close>.
\<close>

record reader_base =
  r_max_buffers :: u64
  r_buffers :: "buffer_lease list"
  r_size :: u64
  r_max_size :: u64
  r_start_offset :: u64
  r_remaining :: u64
  r_get_buffer_called :: bool
  r_error :: bool
  r_eof :: bool
  r_waiting :: "waiter list"

definition reader_base_ctor :: "u64 \<Rightarrow> reader_base" where
  "reader_base_ctor max_buffers =
     \<lparr>r_max_buffers = (if max_buffers \<noteq> 0 then max_buffers else 1),
      r_buffers = [],
      r_size = nosize,
      r_max_size = nosize,
      r_start_offset = nosize,
      r_remaining = nosize,
      r_get_buffer_called = False,
      r_error = False,
      r_eof = False,
      r_waiting = []\<rparr>"

section \<open>The writer base class\<close>

text \<open>
  The fields of \<^verbatim>\<open>writer_base\<close>. The progress callback is modelled by whether one is
  set and by the list of byte counts it has been called with.
\<close>

record writer_base =
  w_max_buffers :: u64
  w_buffers :: "buffer_lease list"
  w_error :: bool
  w_finalizing :: byte
  w_progress_cb :: bool
  w_progress :: "u64 list"
  w_waiting :: "waiter list"

definition writer_base_ctor :: "bool \<Rightarrow> u64 \<Rightarrow> writer_base" where
  "writer_base_ctor progress_cb max_buffers =
     \<lparr>w_max_buffers = (if max_buffers \<noteq> 0 then max_buffers else 1),
      w_buffers = [],
      w_error = False,
      w_finalizing = 0,
      w_progress_cb = progress_cb,
      w_progress = [],
      w_waiting = []\<rparr>"

section \<open>In-memory readers\<close>

text \<open>
  A \<^verbatim>\<open>std::string_view\<close> is a data pointer and a size. The constructor of
  \<^verbatim>\<open>view_reader\<close> passes 1 as buffer budget to the base class and then executes
  \<^verbatim>\<open>size_ = max_size_ = remaining_ = view_.size(); if (!remaining_) eof_ = true;\<close>.
  It assigns nothing else.
\<close>

record string_view =
  sv_data :: u64
  sv_size :: u64

record view_reader = reader_base +
  r_view :: string_view

definition view_reader_ctor :: "string_view \<Rightarrow> view_reader" where
  "view_reader_ctor data =
     (let b = reader_base_ctor 1;
          r = reader_base.extend b \<lparr>r_view = data\<rparr>;
          r = r\<lparr>r_size := sv_size data, r_max_size := sv_size data,
                r_remaining := sv_size data\<rparr>
      in if r_remaining r = 0 then r\<lparr>r_eof := True\<rparr> else r)"


text \<open>
  \<^verbatim>\<open>string_reader\<close> keeps its own copy of the data in a \<^verbatim>\<open>std::string\<close>; its
  constructors and its \<^verbatim>\<open>do_get_buffer\<close> are the same statements over
  \<^verbatim>\<open>data_\<close>, so the copy is described by the pointer and size of that string.
\<close>

definition string_reader_ctor :: "string_view \<Rightarrow> view_reader" where
  "string_reader_ctor data =
     (let b = reader_base_ctor 1;
          r = reader_base.extend b \<lparr>r_view = data\<rparr>;
          r = r\<lparr>r_size := sv_size data, r_max_size := sv_size data,
                r_remaining := sv_size data\<rparr>
      in if r_remaining r = 0 then r\<lparr>r_eof := True\<rparr> else r)"

section \<open>The buffer pool\<close>

text \<open>
  The pool owns a mapping of \<^verbatim>\<open>memory_size_\<close> bytes at \<^verbatim>\<open>memory_\<close> (0 is the null
  pointer) and the free-list \<^verbatim>\<open>buffers_\<close>. The constructor follows the POSIX branch of
  the source. What the operating system answers is an input of the model:
  \<^verbatim>\<open>Shm_failed\<close> stands for the early returns before the mapping is attempted (creating,
  sizing or sealing the shared memory object failed), \<^verbatim>\<open>Mapped p\<close> for the pointer that
  \<^verbatim>\<open>mmap\<close> or \<^verbatim>\<open>new (std::nothrow)\<close> returned.
\<close>

record aio_buffer_pool =
  p_memory_size :: u64
  p_memory :: u64
  p_buffers :: "nonowning_buffer list"
  p_buffer_count :: u64
  p_waiting :: "waiter list"

datatype alloc_outcome = Shm_failed | Mapped u64

definition MAP_FAILED :: u64 where
  "MAP_FAILED = - 1"

text \<open>
  \<^verbatim>\<open>if (adjusted_buffer_size % psz) adjusted_buffer_size += psz - (adjusted_buffer_size % psz);\<close>
\<close>

definition adjusted_buffer_size :: "u64 \<Rightarrow> u64 \<Rightarrow> u64" where
  "adjusted_buffer_size buffer_size psz =
     (if buffer_size mod psz \<noteq> 0 then buffer_size + (psz - buffer_size mod psz)
      else buffer_size)"

text \<open>
  \<^verbatim>\<open>for (size_t i = 0; i < buffer_count; ++i, p += adjusted_buffer_size + psz)
    buffers_.emplace_back(p, buffer_size);\<close>
\<close>

fun pool_fill :: "nat \<Rightarrow> u64 \<Rightarrow> u64 \<Rightarrow> u64 \<Rightarrow> nonowning_buffer list" where
  "pool_fill 0 p step buffer_size = []"
| "pool_fill (Suc n) p step buffer_size =
     \<lparr>nb_ptr = p, nb_capacity = buffer_size, nb_data = []\<rparr>
       # pool_fill n (p + step) step buffer_size"

definition aio_buffer_pool_ctor ::
  "u64 \<Rightarrow> alloc_outcome \<Rightarrow> u64 \<Rightarrow> u64 \<Rightarrow> bool \<Rightarrow> aio_buffer_pool" where
  "aio_buffer_pool_ctor psz outcome buffer_count buffer_size0 use_shm =
     (let buffer_size = (if buffer_size0 = 0 then 256 * 1024 else buffer_size0);
          adjusted = adjusted_buffer_size buffer_size psz;
          memory_size = (adjusted + psz) * buffer_count + psz;
          pool = \<lparr>p_memory_size = memory_size, p_memory = 0, p_buffers = [],
                  p_buffer_count = buffer_count, p_waiting = []\<rparr>
      in case outcome of
           Shm_failed \<Rightarrow> pool
         | Mapped m \<Rightarrow>
             if use_shm \<and> (m = 0 \<or> m = MAP_FAILED) then pool\<lparr>p_memory := m\<rparr>
             else if m \<noteq> 0 then
               pool\<lparr>p_memory := m,
                    p_buffers := pool_fill (unat buffer_count) (m + psz) (adjusted + psz) buffer_size\<rparr>
             else pool)"

text \<open>
  \<^verbatim>\<open>get_buffer\<close>: with an empty free-list the caller is recorded as waiting and gets
  the default lease; otherwise the last free buffer is leased.
\<close>

definition pool_get_buffer :: "waiter \<Rightarrow> aio_buffer_pool \<Rightarrow> buffer_lease \<times> aio_buffer_pool" where
  "pool_get_buffer h p =
     (if p_buffers p = [] then (lease_default, p\<lparr>p_waiting := add_waiter h (p_waiting p)\<rparr>)
      else (\<lparr>l_buffer = last (p_buffers p), l_pool = True\<rparr>,
            p\<lparr>p_buffers := butlast (p_buffers p)\<rparr>))"

text \<open>
  \<^verbatim>\<open>release\<close>: a buffer with a non-null pointer is cleared and put back, then one waiter
  is signalled. \<^verbatim>\<open>buffer_lease::release\<close> does so only when the lease has a pool.
\<close>

definition pool_release :: "nonowning_buffer \<Rightarrow> aio_buffer_pool \<Rightarrow> aio_buffer_pool" where
  "pool_release b p =
     (let p1 = (if nb_ptr b \<noteq> 0 then p\<lparr>p_buffers := p_buffers p @ [nb_clear b]\<rparr> else p)
      in p1\<lparr>p_waiting := signal_availibility (p_waiting p1)\<rparr>)"

definition lease_release :: "buffer_lease \<Rightarrow> aio_buffer_pool \<Rightarrow> aio_buffer_pool" where
  "lease_release l p = (if l_pool l then pool_release (l_buffer l) p else p)"

section \<open>Reading from a view\<close>

text \<open>
  The process memory is a function from addresses to bytes. \<^verbatim>\<open>mem_read m a n\<close> are the
  \<open>n\<close> bytes starting at address \<open>a\<close>; address arithmetic wraps at 64 bits.
\<close>

type_synonym memory = "u64 \<Rightarrow> byte"

definition mem_read :: "memory \<Rightarrow> u64 \<Rightarrow> nat \<Rightarrow> byte list" where
  "mem_read m a n = map (\<lambda>k. m (a + of_nat k)) [0..<n]"

text \<open>
  \<^verbatim>\<open>view_reader::do_get_buffer\<close>. The source address of the copy is
  \<^verbatim>\<open>view_.data() + start_offset_ + size_ - remaining_\<close>.
\<close>

definition view_do_get_buffer ::
  "memory \<Rightarrow> waiter \<Rightarrow> aio_buffer_pool \<Rightarrow> view_reader
     \<Rightarrow> (aio_result \<times> buffer_lease) \<times> aio_buffer_pool \<times> view_reader" where
  "view_do_get_buffer m self pool r =
     (if r_error r then ((aio_error, lease_default), pool, r)
      else if r_eof r then ((aio_ok, lease_default), pool, r)
      else
        let (b, pool1) = pool_get_buffer self pool in
        if \<not> lease_bool b then ((aio_wait, lease_default), pool1, r)
        else
          let to_read = nb_capacity (l_buffer b);
              to_read = (if r_remaining r \<noteq> nosize \<and> r_remaining r < to_read
                         then r_remaining r else to_read);
              src = sv_data (r_view r) + r_start_offset r + r_size r - r_remaining r;
              b1 = b\<lparr>l_buffer := nb_append (l_buffer b) (mem_read m src (unat to_read))\<rparr>;
              r1 = r\<lparr>r_remaining := r_remaining r - to_read\<rparr>;
              r2 = (if r_remaining r1 = 0 then r1\<lparr>r_eof := True\<rparr> else r1);
              r3 = r2\<lparr>r_get_buffer_called := True\<rparr>
          in ((aio_ok, b1), pool1, r3))"

text \<open>
  \<^verbatim>\<open>reader_base::get_buffer\<close>: the subclass's \<^verbatim>\<open>do_get_buffer\<close>, and the caller is
  added as waiter when the result is \<^verbatim>\<open>wait\<close>. The reader's own identity as waiter of
  the pool is \<open>self\<close>.
\<close>

definition view_get_buffer ::
  "memory \<Rightarrow> waiter \<Rightarrow> waiter \<Rightarrow> aio_buffer_pool \<Rightarrow> view_reader
     \<Rightarrow> (aio_result \<times> buffer_lease) \<times> aio_buffer_pool \<times> view_reader" where
  "view_get_buffer m self h pool r =
     (let (ret, pool1, r1) = view_do_get_buffer m self pool r
      in if fst ret = aio_wait then (ret, pool1, r1\<lparr>r_waiting := add_waiter h (r_waiting r1)\<rparr>)
         else (ret, pool1, r1))"

section \<open>The in-memory writer\<close>

text \<open>
  \<^verbatim>\<open>buffer_writer\<close> appends to a client-owned \<^verbatim>\<open>fz::buffer\<close>, here the list of its
  bytes, and has a size limit. The base class gets 1 as buffer budget.
\<close>

record buffer_writer = writer_base +
  bw_buffer :: "byte list"
  bw_size_limit :: u64

definition buffer_writer_ctor :: "byte list \<Rightarrow> u64 \<Rightarrow> bool \<Rightarrow> buffer_writer" where
  "buffer_writer_ctor buffer size_limit progress_cb =
     writer_base.extend (writer_base_ctor progress_cb 1)
       \<lparr>bw_buffer = buffer, bw_size_limit = size_limit\<rparr>"

text \<open>
  \<^verbatim>\<open>buffer_writer::do_add_buffer\<close>: the test is
  \<^verbatim>\<open>size_limit_ - buffer_.size() < b->size()\<close> in \<^verbatim>\<open>size_t\<close> arithmetic.
\<close>

definition buffer_writer_do_add_buffer ::
  "buffer_lease \<Rightarrow> buffer_writer \<Rightarrow> aio_result \<times> buffer_writer" where
  "buffer_writer_do_add_buffer b w =
     (if bw_size_limit w - of_nat (length (bw_buffer w)) < nb_size (l_buffer b)
      then (aio_error, w\<lparr>w_error := True\<rparr>)
      else
        let w1 = w\<lparr>bw_buffer := bw_buffer w @ nb_data (l_buffer b)\<rparr>;
            w2 = (if w_progress_cb w1
                  then w1\<lparr>w_progress := w_progress w1 @ [nb_size (l_buffer b)]\<rparr> else w1)
        in (aio_ok, w2))"

text \<open>
  \<^verbatim>\<open>writer_base::add_buffer\<close>, with \<^verbatim>\<open>do_add_buffer\<close> of the subclass as argument:
  a latched error comes first, then the no-op for an empty lease or an empty buffer.
\<close>

definition add_buffer ::
  "(buffer_lease \<Rightarrow> 'a writer_base_scheme \<Rightarrow> aio_result \<times> 'a writer_base_scheme)
     \<Rightarrow> buffer_lease \<Rightarrow> waiter \<Rightarrow> 'a writer_base_scheme
     \<Rightarrow> aio_result \<times> 'a writer_base_scheme" where
  "add_buffer do_add_buffer buffer h w =
     (if w_error w then (aio_error, w)
      else if \<not> lease_bool buffer \<or> nb_empty (l_buffer buffer) then (aio_ok, w)
      else
        let (r, w1) = do_add_buffer buffer w
        in if r = aio_wait then (r, w1\<lparr>w_waiting := add_waiter h (w_waiting w1)\<rparr>)
           else (r, w1))"

definition buffer_writer_add_buffer ::
  "buffer_lease \<Rightarrow> waiter \<Rightarrow> buffer_writer \<Rightarrow> aio_result \<times> buffer_writer" where
  "buffer_writer_add_buffer = add_buffer buffer_writer_do_add_buffer"


section \<open>Piping a view reader into a buffer writer\<close>

text \<open>
  The client loop of the claim, as the demo program drives a reader and a writer: call
  \<^verbatim>\<open>get_buffer\<close>; stop on \<^verbatim>\<open>ok\<close> without a buffer; otherwise hand the lease to
  \<^verbatim>\<open>add_buffer\<close>; the lease goes out of scope at the end of the iteration, which
  returns the buffer to the pool (\<^verbatim>\<open>buffer_writer\<close> does not keep it). Nobody else holds
  leases, so a \<^verbatim>\<open>wait\<close> would never be followed by a signal: it ends the run as
  \<^verbatim>\<open>Stalled\<close>. The loop is bounded by fuel; the client is waiter 0, the reader waiter 1.
\<close>

datatype pipe_error = Out_of_fuel | Reader_failed | Writer_failed | Stalled

fun pipe ::
  "nat \<Rightarrow> memory \<Rightarrow> aio_buffer_pool \<Rightarrow> view_reader \<Rightarrow> buffer_writer
     \<Rightarrow> pipe_error + (aio_buffer_pool \<times> view_reader \<times> buffer_writer)" where
  "pipe 0 m pool r w = Inl Out_of_fuel"
| "pipe (Suc fuel) m pool r w =
     (let ((res, b), pool1, r1) = view_get_buffer m 1 0 pool r in
      if res = aio_error then Inl Reader_failed
      else if res = aio_wait then Inl Stalled
      else if \<not> lease_bool b then Inr (pool1, r1, w)
      else
        let (res2, w1) = buffer_writer_add_buffer b 0 w;
            pool2 = lease_release b pool1
        in if res2 = aio_error then Inl Writer_failed
           else if res2 = aio_wait then Inl Stalled
           else pipe fuel m pool2 r1 w1)"

text \<open>The bytes that have arrived in the destination buffer when the pipe has ended.\<close>

definition pipe_output ::
  "pipe_error + (aio_buffer_pool \<times> view_reader \<times> buffer_writer) \<Rightarrow> byte list option" where
  "pipe_output res = (case res of Inl e \<Rightarrow> None | Inr (pool, r, w) \<Rightarrow> Some (bw_buffer w))"

section \<open>Seeking\<close>

text \<open>
  \<^verbatim>\<open>reader_base::seek\<close>. The virtual functions \<^verbatim>\<open>seekable\<close> and \<^verbatim>\<open>do_seek\<close> of
  the subclass are arguments. Clearing \<^verbatim>\<open>buffers_\<close> destroys the queued leases, which
  returns their buffers to the pool; the reader also withdraws as waiter of the pool.
\<close>

definition release_all :: "buffer_lease list \<Rightarrow> aio_buffer_pool \<Rightarrow> aio_buffer_pool" where
  "release_all ls p = fold lease_release ls p"

text \<open>
  Step 1 of \<^verbatim>\<open>seek\<close> replaces the arguments: an offset of \<^verbatim>\<open>nosize\<close> becomes
  \<^verbatim>\<open>(start_offset_ == nosize) ? 0 : start_offset_\<close>, and only then a size of
  \<^verbatim>\<open>nosize\<close> becomes \<^verbatim>\<open>size_\<close>.
\<close>

definition seek_offset :: "'a reader_base_scheme \<Rightarrow> u64 \<Rightarrow> u64" where
  "seek_offset r offset0 =
     (if offset0 = nosize
      then (if r_start_offset r = nosize then 0 else r_start_offset r)
      else offset0)"

definition seek_size :: "'a reader_base_scheme \<Rightarrow> u64 \<Rightarrow> u64 \<Rightarrow> u64" where
  "seek_size r offset0 size0 =
     (if offset0 = nosize \<and> size0 = nosize then r_size r else size0)"

text \<open>Step 2 of \<^verbatim>\<open>seek\<close>: the flag \<^verbatim>\<open>change\<close>.\<close>

definition seek_change :: "'a reader_base_scheme \<Rightarrow> u64 \<Rightarrow> u64 \<Rightarrow> bool" where
  "seek_change r offset sz =
     (r_get_buffer_called r \<or> offset \<noteq> r_start_offset r
      \<or> (if sz = nosize then offset + r_size r \<noteq> r_max_size r else sz \<noteq> r_size r))"

text \<open>
  The block of \<^verbatim>\<open>seek\<close> that runs once the seek is accepted and changes something:
  waiters and queue are cleared, \<^verbatim>\<open>start_offset_\<close>, \<^verbatim>\<open>size_\<close>, \<^verbatim>\<open>remaining_\<close>
  and \<^verbatim>\<open>eof_\<close> are set and \<^verbatim>\<open>get_buffer_called_\<close> is reset.
\<close>

definition seek_set :: "'a reader_base_scheme \<Rightarrow> u64 \<Rightarrow> u64 \<Rightarrow> 'a reader_base_scheme" where
  "seek_set r offset sz =
     (let r1 = r\<lparr>r_waiting := [], r_buffers := []\<rparr>;
          r2 = r1\<lparr>r_start_offset := offset\<rparr>;
          r3 = (if sz \<noteq> nosize then r2\<lparr>r_size := sz\<rparr>
                else
                  let r2a = r2\<lparr>r_size := r_max_size r2\<rparr>
                  in if r_size r2a \<noteq> nosize
                     then r2a\<lparr>r_size := r_size r2a - r_start_offset r2a\<rparr>
                     else r2a);
          r4 = r3\<lparr>r_remaining := r_size r3\<rparr>;
          r5 = r4\<lparr>r_eof := (r_remaining r4 = 0)\<rparr>
      in r5\<lparr>r_get_buffer_called := False\<rparr>)"

definition seek ::
  "('a reader_base_scheme \<Rightarrow> bool)
     \<Rightarrow> ('a reader_base_scheme \<Rightarrow> bool \<times> 'a reader_base_scheme)
     \<Rightarrow> waiter \<Rightarrow> u64 \<Rightarrow> u64 \<Rightarrow> aio_buffer_pool \<Rightarrow> 'a reader_base_scheme
     \<Rightarrow> bool \<times> aio_buffer_pool \<times> 'a reader_base_scheme" where
  "seek seekable do_seek self offset0 size0 pool r =
     (let offset = seek_offset r offset0;
          sz = seek_size r offset0 size0
      in
        if sz \<noteq> nosize \<and> nosize - sz \<le> offset then (False, pool, r)
        else if sz \<noteq> nosize \<and> offset + sz > r_max_size r then (False, pool, r)
        else if r_error r then (False, pool, r)
        else if \<not> seek_change r offset sz then (True, pool, r)
        else if \<not> seekable r \<and> (r_start_offset r \<noteq> nosize \<or> offset \<noteq> 0)
        then (False, pool, r)
        else
          let pool1 = pool\<lparr>p_waiting := remove_waiter self (p_waiting pool)\<rparr>;
              pool2 = release_all (r_buffers r) pool1;
              (res, r1) = do_seek (seek_set r offset sz)
          in (res, pool2, r1))"

text \<open>\<^verbatim>\<open>rewind\<close> is \<^verbatim>\<open>seek(start_offset_, size_)\<close>.\<close>

definition rewind ::
  "('a reader_base_scheme \<Rightarrow> bool)
     \<Rightarrow> ('a reader_base_scheme \<Rightarrow> bool \<times> 'a reader_base_scheme)
     \<Rightarrow> waiter \<Rightarrow> aio_buffer_pool \<Rightarrow> 'a reader_base_scheme
     \<Rightarrow> bool \<times> aio_buffer_pool \<times> 'a reader_base_scheme" where
  "rewind seekable do_seek self pool r =
     seek seekable do_seek self (r_start_offset r) (r_size r) pool r"

text \<open>
  The view reader is always seekable and its \<^verbatim>\<open>do_seek\<close> returns \<^verbatim>\<open>true\<close>.
  \<^verbatim>\<open>view_reader_factory::open\<close> constructs the reader and seeks only when
  \<^verbatim>\<open>offset || size != nosize\<close>; a failed seek gives no reader.
\<close>

definition view_seek ::
  "waiter \<Rightarrow> u64 \<Rightarrow> u64 \<Rightarrow> aio_buffer_pool \<Rightarrow> view_reader
     \<Rightarrow> bool \<times> aio_buffer_pool \<times> view_reader" where
  "view_seek = seek (\<lambda>r. True) (\<lambda>r. (True, r))"

definition view_reader_factory_open ::
  "string_view \<Rightarrow> aio_buffer_pool \<Rightarrow> u64 \<Rightarrow> u64 \<Rightarrow> (aio_buffer_pool \<times> view_reader) option" where
  "view_reader_factory_open v pool offset sz =
     (let ret = view_reader_ctor v
      in if offset \<noteq> 0 \<or> sz \<noteq> nosize
         then (case view_seek 1 offset sz pool ret of
                 (False, pool1, r1) \<Rightarrow> None
               | (True, pool1, r1) \<Rightarrow> Some (pool1, r1))
         else Some (pool, ret))"


section \<open>Threaded readers\<close>

text \<open>
  \<^verbatim>\<open>threaded_reader\<close> adds the condition \<^verbatim>\<open>cond_\<close> (here: whether it has been
  signalled), the worker task (whether one has been spawned) and \<^verbatim>\<open>quit_\<close>.
  \<^verbatim>\<open>tr_worker\<close> is where the thread behind \<^verbatim>\<open>task_\<close> stands: running its loop,
  blocked in \<^verbatim>\<open>cond_.wait\<close>, or returned.
  \<^verbatim>\<open>do_get_buffer\<close> looks at the flags only when the queue is empty.
\<close>

datatype worker_state = Worker_started | Worker_waiting | Worker_exited

record threaded_reader = reader_base +
  tr_cond :: bool
  tr_task :: bool
  tr_quit :: bool
  tr_worker :: worker_state

definition threaded_do_get_buffer ::
  "'a threaded_reader_scheme \<Rightarrow> (aio_result \<times> buffer_lease) \<times> 'a threaded_reader_scheme" where
  "threaded_do_get_buffer r =
     (if r_buffers r = [] then
        (if r_error r then ((aio_error, lease_default), r)
         else if r_eof r then ((aio_ok, lease_default), r)
         else ((aio_wait, lease_default), r))
      else
        let w = (of_nat (length (r_buffers r)) = r_max_buffers r);
            b = hd (r_buffers r);
            r1 = r\<lparr>r_buffers := tl (r_buffers r)\<rparr>;
            r2 = (if w then r1\<lparr>tr_cond := True\<rparr> else r1);
            r3 = r2\<lparr>r_get_buffer_called := True\<rparr>
        in ((aio_ok, b), r3))"

definition threaded_get_buffer ::
  "waiter \<Rightarrow> 'a threaded_reader_scheme
     \<Rightarrow> (aio_result \<times> buffer_lease) \<times> 'a threaded_reader_scheme" where
  "threaded_get_buffer h r =
     (let (ret, r1) = threaded_do_get_buffer r
      in if fst ret = aio_wait then (ret, r1\<lparr>r_waiting := add_waiter h (r_waiting r1)\<rparr>)
         else (ret, r1))"

text \<open>
  Modelled from the spec: the blocking file that \<^verbatim>\<open>file_reader\<close> reads from (the file
  class is not part of the sources). What the operating system answers is an input:
  \<^verbatim>\<open>rf_size\<close> is the result of \<^verbatim>\<open>size()\<close> (negative when unknown),
  \<^verbatim>\<open>rf_seek\<close> the result of \<^verbatim>\<open>seek(offset, begin)\<close>, \<^verbatim>\<open>rf_spawn\<close> whether the
  thread pool hands out a worker, and \<^verbatim>\<open>rf_reads\<close> what the coming calls of
  \<^verbatim>\<open>read\<close> return: \<^verbatim>\<open>None\<close> for a negative result, otherwise the bytes read, none
  at the end of the file. A call never returns more than it was asked for, and once the
  list is used up the file is at its end.
\<close>

record read_file =
  rf_opened :: bool
  rf_size :: int
  rf_seek :: "int \<Rightarrow> int"
  rf_spawn :: bool
  rf_reads :: "byte list option list"

record file_reader = threaded_reader +
  fr_file :: read_file

text \<open>\<^verbatim>\<open>file_reader::seekable\<close> is \<^verbatim>\<open>max_size_ != nosize\<close>.\<close>

definition file_reader_seekable :: "file_reader \<Rightarrow> bool" where
  "file_reader_seekable r = (r_max_size r \<noteq> nosize)"

text \<open>
  \<^verbatim>\<open>file_reader::do_seek\<close>: the worker is stopped and joined, the file is positioned at
  \<^verbatim>\<open>start_offset_\<close> (compared as \<^verbatim>\<open>int64_t\<close>), and a new worker is spawned unless
  the reader is at eof.
\<close>

definition file_reader_do_seek :: "file_reader \<Rightarrow> bool \<times> file_reader" where
  "file_reader_do_seek r =
     (let r1 = r\<lparr>tr_cond := False, tr_task := False, tr_quit := False,
                 tr_worker := Worker_exited\<rparr>
      in if rf_seek (fr_file r1) (sint (r_start_offset r1)) \<noteq> sint (r_start_offset r1)
         then (False, r1)
         else if \<not> r_eof r1
         then (rf_spawn (fr_file r1),
               r1\<lparr>tr_task := rf_spawn (fr_file r1),
                  tr_worker := (if rf_spawn (fr_file r1) then Worker_started else Worker_exited)\<rparr>)
         else (True, r1))"

definition file_reader_seek ::
  "waiter \<Rightarrow> u64 \<Rightarrow> u64 \<Rightarrow> aio_buffer_pool \<Rightarrow> file_reader
     \<Rightarrow> bool \<times> aio_buffer_pool \<times> file_reader" where
  "file_reader_seek = seek file_reader_seekable file_reader_do_seek"

text \<open>
  The constructor of \<^verbatim>\<open>file_reader\<close> taking the name as \<^verbatim>\<open>std::wstring &&\<close>, the one
  \<^verbatim>\<open>file_reader_factory::open\<close> calls: with an open file, \<^verbatim>\<open>max_size_\<close> becomes the
  file size when that is known, and the reader seeks to the requested range; a failed seek
  or a file that is not open sets \<^verbatim>\<open>error_\<close>.
\<close>

definition file_reader_ctor ::
  "waiter \<Rightarrow> aio_buffer_pool \<Rightarrow> read_file \<Rightarrow> u64 \<Rightarrow> u64 \<Rightarrow> u64
     \<Rightarrow> aio_buffer_pool \<times> file_reader" where
  "file_reader_ctor self pool f offset sz max_buffers =
     (let b = reader_base_ctor max_buffers;
          t = reader_base.extend b (threaded_reader.fields False False False Worker_exited);
          r = threaded_reader.extend t (file_reader.fields f)
      in if rf_opened f then
           let r1 = (if 0 \<le> rf_size f then r\<lparr>r_max_size := of_int (rf_size f)\<rparr> else r);
               (res, pool1, r2) = file_reader_seek self offset sz pool r1
           in if \<not> res then (pool1, r2\<lparr>r_error := True\<rparr>) else (pool1, r2)
         else (pool, r\<lparr>r_error := True\<rparr>))"

text \<open>
  The inner loop of \<^verbatim>\<open>file_reader::entry\<close> fills one buffer: it reads until the buffer
  is full, a read fails (\<^verbatim>\<open>error_\<close>), or a read returns nothing, which is the end of
  the data when no bytes are outstanding and an error otherwise. The worker releases the
  mutex around each read; the model runs it between two calls of the client.
\<close>

function fill_buffer ::
  "nonowning_buffer \<Rightarrow> file_reader \<Rightarrow> nonowning_buffer \<times> file_reader" where
  "fill_buffer b r =
     (if \<not> length (nb_data b) < unat (nb_capacity b) then (b, r)
      else
        let to_read0 = nb_capacity b - nb_size b;
            to_read = (if r_remaining r \<noteq> nosize \<and> to_read0 > r_remaining r
                       then r_remaining r else to_read0);
            res = (if to_read \<noteq> 0
                   then (case rf_reads (fr_file r) of [] \<Rightarrow> Some []
                         | x # xs \<Rightarrow> map_option (take (unat to_read)) x)
                   else Some []);
            r1 = (if to_read \<noteq> 0
                  then r\<lparr>fr_file := (fr_file r)\<lparr>rf_reads := tl (rf_reads (fr_file r))\<rparr>\<rparr>
                  else r)
        in case res of
             None \<Rightarrow> (b, r1\<lparr>r_error := True\<rparr>)
           | Some bytes \<Rightarrow>
               if bytes = [] then
                 (if r_remaining r1 \<noteq> 0 \<and> r_remaining r1 \<noteq> nosize
                  then (b, r1\<lparr>r_error := True\<rparr>)
                  else (b, r1\<lparr>r_eof := True\<rparr>))
               else
                 fill_buffer (nb_append b bytes)
                   (if r_remaining r1 \<noteq> nosize
                    then r1\<lparr>r_remaining := r_remaining r1 - of_nat (length bytes)\<rparr>
                    else r1))"
  by pat_completeness auto
termination
  by (relation "measure (\<lambda>(b, r). unat (nb_capacity b) - length (nb_data b))")
     (auto simp add: nb_append_def simp flip: length_greater_0_conv)

text \<open>
  One pass through the body of the outer loop of \<^verbatim>\<open>file_reader::entry\<close>. The worker
  returns when \<^verbatim>\<open>quit_\<close> or \<^verbatim>\<open>error_\<close> is set, waits when its queue is full or the
  pool has no buffer, and otherwise fills a buffer. A buffer that got data is queued, also
  when the last read failed; an empty one goes back to the pool with the lease. With eof
  or error and an empty queue the worker signals and returns.
\<close>

definition file_reader_entry ::
  "waiter \<Rightarrow> aio_buffer_pool \<Rightarrow> file_reader \<Rightarrow> aio_buffer_pool \<times> file_reader" where
  "file_reader_entry self pool r =
     (if tr_quit r \<or> r_error r then (pool, r\<lparr>tr_worker := Worker_exited\<rparr>)
      else if of_nat (length (r_buffers r)) = r_max_buffers r
      then (pool, r\<lparr>tr_worker := Worker_waiting\<rparr>)
      else
        let (b, pool1) = pool_get_buffer self pool
        in if \<not> lease_bool b then (pool1, r\<lparr>tr_worker := Worker_waiting\<rparr>)
           else
             let (nb, r1) = fill_buffer (l_buffer b) r;
                 b1 = b\<lparr>l_buffer := nb\<rparr>;
                 r2 = (if \<not> nb_empty nb then
                         let r1a = r1\<lparr>r_buffers := r_buffers r1 @ [b1]\<rparr>
                         in if length (r_buffers r1a) = 1
                            then r1a\<lparr>r_waiting := signal_availibility (r_waiting r1a)\<rparr>
                            else r1a
                       else r1);
                 pool2 = (if \<not> nb_empty nb then pool1 else lease_release b1 pool1)
             in if (r_eof r2 \<or> r_error r2) \<and> \<not> tr_quit r2 \<and> r_buffers r2 = []
                then (pool2, r2\<lparr>r_waiting := signal_availibility (r_waiting r2),
                               tr_worker := Worker_exited\<rparr>)
                else (pool2, r2))"

section \<open>Threaded writers\<close>

text \<open>
  \<^verbatim>\<open>threaded_writer\<close> adds \<^verbatim>\<open>cond_\<close>, \<^verbatim>\<open>task_\<close> and \<^verbatim>\<open>quit_\<close>. The condition
  remembers one signal: \<^verbatim>\<open>wakeup\<close> sets it, a wait that finds it set takes it and goes
  on, a wait that does not find it set blocks. \<^verbatim>\<open>tw_worker\<close> is where the thread behind
  \<^verbatim>\<open>task_\<close> stands: not yet at its first statement, blocked in \<^verbatim>\<open>cond_.wait\<close>, or
  returned.
\<close>

record threaded_writer = writer_base +
  tw_cond :: bool
  tw_task :: bool
  tw_quit :: bool
  tw_worker :: worker_state

definition threaded_do_add_buffer ::
  "buffer_lease \<Rightarrow> 'a threaded_writer_scheme \<Rightarrow> aio_result \<times> 'a threaded_writer_scheme" where
  "threaded_do_add_buffer b w =
     (let w1 = w\<lparr>w_buffers := w_buffers w @ [b]\<rparr>;
          w2 = (if length (w_buffers w1) = 1 then w1\<lparr>tw_cond := True\<rparr> else w1)
      in if (of_nat (length (w_buffers w2)) :: u64) \<ge> w_max_buffers w2 then (aio_wait, w2)
         else (aio_ok, w2))"

text \<open>
  \<^verbatim>\<open>writer_base::finalize\<close> with \<^verbatim>\<open>do_finalize\<close> of the subclass as argument, and
  \<^verbatim>\<open>threaded_writer::do_finalize\<close> with \<^verbatim>\<open>continue_finalize\<close> as argument.
\<close>

definition finalize ::
  "('a writer_base_scheme \<Rightarrow> aio_result \<times> 'a writer_base_scheme)
     \<Rightarrow> waiter \<Rightarrow> 'a writer_base_scheme \<Rightarrow> aio_result \<times> 'a writer_base_scheme" where
  "finalize do_finalize h w =
     (let (r, w1) = do_finalize w
      in if r = aio_wait then (r, w1\<lparr>w_waiting := add_waiter h (w_waiting w1)\<rparr>)
         else (r, w1))"

definition threaded_do_finalize ::
  "('a threaded_writer_scheme \<Rightarrow> aio_result \<times> 'a threaded_writer_scheme)
     \<Rightarrow> 'a threaded_writer_scheme \<Rightarrow> aio_result \<times> 'a threaded_writer_scheme" where
  "threaded_do_finalize continue_finalize w =
     (if w_error w then (aio_error, w)
      else if w_finalizing w = 2 then (aio_ok, w)
      else continue_finalize (w\<lparr>w_finalizing := 1\<rparr>))"

text \<open>\<^verbatim>\<open>buffer_writer::do_finalize\<close> and \<^verbatim>\<open>buffer_writer::preallocate\<close>.\<close>

definition buffer_writer_do_finalize :: "buffer_writer \<Rightarrow> aio_result \<times> buffer_writer" where
  "buffer_writer_do_finalize w = (if w_error w then (aio_error, w) else (aio_ok, w))"

definition buffer_writer_finalize :: "waiter \<Rightarrow> buffer_writer \<Rightarrow> aio_result \<times> buffer_writer" where
  "buffer_writer_finalize = finalize buffer_writer_do_finalize"

definition buffer_writer_preallocate :: "u64 \<Rightarrow> buffer_writer \<Rightarrow> aio_result \<times> buffer_writer" where
  "buffer_writer_preallocate sz w =
     (if sz > bw_size_limit w then (aio_error, w) else (aio_ok, w))"

section \<open>The file writer\<close>

text \<open>
  Modelled from the spec: the blocking file capability a \<^verbatim>\<open>file_writer\<close> writes to (the
  file class is not part of the sources). A file has a position and a length; the path it
  was opened under names a file or not. Seeking to a non-negative offset succeeds and
  returns the new position, \<^verbatim>\<open>truncate\<close> cuts or extends the file to the position,
  \<^verbatim>\<open>close\<close> closes the handle, \<^verbatim>\<open>remove_file\<close> deletes the path. Opening for writing
  creates the file when it is missing; the mode \<^verbatim>\<open>empty\<close> discards old contents,
  the mode \<^verbatim>\<open>existing\<close> keeps them.
\<close>

record out_file =
  f_opened :: bool
  f_position :: int
  f_length :: int
  f_exists :: bool

datatype creation_flags = Empty | Existing

definition file_open_writing :: "bool \<Rightarrow> creation_flags \<Rightarrow> out_file \<Rightarrow> out_file" where
  "file_open_writing os_ok flags disk =
     (if os_ok then
        \<lparr>f_opened = True, f_position = 0,
         f_length = (if flags = Existing \<and> f_exists disk then f_length disk else 0),
         f_exists = True\<rparr>
      else disk\<lparr>f_opened := False\<rparr>)"

definition file_seek_begin :: "int \<Rightarrow> out_file \<Rightarrow> int \<times> out_file" where
  "file_seek_begin off f = (if 0 \<le> off then (off, f\<lparr>f_position := off\<rparr>) else (- 1, f))"

definition file_truncate :: "out_file \<Rightarrow> bool \<times> out_file" where
  "file_truncate f = (True, f\<lparr>f_length := f_position f\<rparr>)"

definition file_close :: "out_file \<Rightarrow> out_file" where
  "file_close f = f\<lparr>f_opened := False\<rparr>"

definition remove_file :: "out_file \<Rightarrow> out_file" where
  "remove_file f = f\<lparr>f_exists := False, f_length := 0\<rparr>"

record file_writer = threaded_writer +
  fw_file :: out_file
  fw_fsync :: bool
  fw_preallocated :: bool

text \<open>
  The constructor: the worker is spawned when the file is open; without a file or without
  a worker the file is closed and \<^verbatim>\<open>error_\<close> is set.
\<close>

definition file_writer_ctor :: "out_file \<Rightarrow> bool \<Rightarrow> bool \<Rightarrow> bool \<Rightarrow> u64 \<Rightarrow> file_writer" where
  "file_writer_ctor f spawn_ok fsync progress_cb max_buffers =
     (let b = writer_base_ctor progress_cb max_buffers;
          t = writer_base.extend b (threaded_writer.fields False False False Worker_exited);
          w = threaded_writer.extend t (file_writer.fields f fsync False);
          w1 = (if f_opened f then
                  w\<lparr>tw_task := spawn_ok,
                    tw_worker := (if spawn_ok then Worker_started else Worker_exited)\<rparr>
                else w)
      in if \<not> f_opened (fw_file w1) \<or> \<not> tw_task w1
         then w1\<lparr>fw_file := file_close (fw_file w1), w_error := True\<rparr>
         else w1)"

text \<open>
  \<^verbatim>\<open>file_writer_factory::open\<close>: a budget of 0 becomes the preferred count 4; the file
  is opened in mode \<^verbatim>\<open>existing\<close> for a non-zero offset and \<^verbatim>\<open>empty\<close> otherwise; for a
  non-zero offset the file is positioned there and truncated. \<open>os_ok\<close> and
  \<open>spawn_ok\<close> say whether opening the file and spawning the worker succeed.
\<close>

definition file_writer_factory_open ::
  "bool \<Rightarrow> bool \<Rightarrow> bool \<Rightarrow> out_file \<Rightarrow> u64 \<Rightarrow> bool \<Rightarrow> u64 \<Rightarrow> file_writer option" where
  "file_writer_factory_open os_ok spawn_ok fsync disk offset progress_cb max_buffers0 =
     (let max_buffers = (if max_buffers0 = 0 then 4 else max_buffers0);
          flags = (if offset \<noteq> 0 then Existing else Empty);
          f = file_open_writing os_ok flags disk
      in if \<not> f_opened f then None
         else if offset \<noteq> 0 then
           (let (new_pos, f1) = file_seek_begin (sint offset) f
            in if new_pos \<noteq> sint offset then None
               else
                 let (ok, f2) = file_truncate f1
                 in if \<not> ok then None
                    else Some (file_writer_ctor f2 spawn_ok fsync progress_cb max_buffers))
         else Some (file_writer_ctor f spawn_ok fsync progress_cb max_buffers))"

text \<open>
  \<^verbatim>\<open>file_writer::continue_finalize\<close>, \<^verbatim>\<open>finalize\<close> and \<^verbatim>\<open>set_mtime\<close>.
  \<open>mtime_ok\<close> is the answer of the file's \<^verbatim>\<open>set_modification_time\<close>.
\<close>

definition file_writer_continue_finalize :: "file_writer \<Rightarrow> aio_result \<times> file_writer" where
  "file_writer_continue_finalize w =
     (if \<not> f_opened (fw_file w) then (aio_error, w\<lparr>w_error := True\<rparr>)
      else
        let w1 = (if fw_fsync w \<and> w_buffers w = [] then w\<lparr>tw_cond := True\<rparr> else w)
        in if w_buffers w1 \<noteq> [] \<or> fw_fsync w1 then (aio_wait, w1) else (aio_ok, w1))"

definition file_writer_finalize :: "waiter \<Rightarrow> file_writer \<Rightarrow> aio_result \<times> file_writer" where
  "file_writer_finalize = finalize (threaded_do_finalize file_writer_continue_finalize)"

definition file_writer_set_mtime :: "bool \<Rightarrow> file_writer \<Rightarrow> bool" where
  "file_writer_set_mtime mtime_ok w =
     (if w_error w \<or> w_finalizing w \<noteq> 2 \<or> \<not> f_opened (fw_file w) then False
      else mtime_ok)"

definition file_writer_add_buffer ::
  "buffer_lease \<Rightarrow> waiter \<Rightarrow> file_writer \<Rightarrow> aio_result \<times> file_writer" where
  "file_writer_add_buffer = add_buffer threaded_do_add_buffer"


text \<open>
  The inner loop of \<^verbatim>\<open>file_writer::entry\<close> writes one buffer out. \<open>script\<close> lists what
  the successive calls of \<^verbatim>\<open>file_.write\<close> return (never more than asked for; once the
  list is used up every call writes all it is given). A result that is not positive ends
  the loop with failure. Each successful write moves the file position, consumes the bytes
  and calls the progress callback when there is one. The result is whether all bytes were
  written, the rest of the script, the bytes not yet written, the file and the progress log.
\<close>

function drain_buffer ::
  "bool \<Rightarrow> int list \<Rightarrow> byte list \<Rightarrow> out_file \<Rightarrow> u64 list
     \<Rightarrow> bool \<times> int list \<times> byte list \<times> out_file \<times> u64 list" where
  "drain_buffer cb script data f progress =
     (if data = [] then (True, script, data, f, progress)
      else
        let written = (case script of [] \<Rightarrow> int (length data)
                       | x # xs \<Rightarrow> min x (int (length data)));
            script1 = tl script
        in if written \<le> 0 then (False, script1, data, f, progress)
           else drain_buffer cb script1 (drop (nat written) data)
                  (f\<lparr>f_position := f_position f + written,
                     f_length := max (f_length f) (f_position f + written)\<rparr>)
                  (if cb then progress @ [of_int written] else progress))"
  by pat_completeness auto
termination
  by (relation "measure (\<lambda>(cb, script, data, f, progress). length data)") auto

text \<open>
  \<^verbatim>\<open>file_writer::entry\<close>, run from the top of its loop until the worker blocks in
  \<^verbatim>\<open>cond_.wait\<close> or returns. The worker holds the mutex except during the write calls;
  the model runs it between two calls of the client, so the flags do not change under it.
  \<open>fsync_ok\<close> is the answer of \<^verbatim>\<open>file_.fsync()\<close>. Erasing the front of the queue
  destroys that lease.
\<close>

function file_writer_entry ::
  "int list \<Rightarrow> bool \<Rightarrow> aio_buffer_pool \<Rightarrow> file_writer
     \<Rightarrow> int list \<times> aio_buffer_pool \<times> file_writer" where
  "file_writer_entry script fsync_ok pool w =
     (if tw_quit w \<or> w_error w then (script, pool, w\<lparr>tw_worker := Worker_exited\<rparr>)
      else if w_buffers w = [] then
        (if w_finalizing w = 1 then
           let w1 = w\<lparr>w_finalizing := 2\<rparr>;
               w2 = (if fw_fsync w1 \<and> \<not> fsync_ok then w1\<lparr>w_error := True\<rparr> else w1);
               w3 = w2\<lparr>w_waiting := signal_availibility (w_waiting w2)\<rparr>
           in (script, pool, w3\<lparr>tw_worker := Worker_exited\<rparr>)
         else if tw_cond w then file_writer_entry script fsync_ok pool (w\<lparr>tw_cond := False\<rparr>)
         else (script, pool, w\<lparr>tw_worker := Worker_waiting\<rparr>))
      else
        let b = hd (w_buffers w);
            res = drain_buffer (w_progress_cb w) script (nb_data (l_buffer b)) (fw_file w)
                    (w_progress w);
            b1 = b\<lparr>l_buffer := (l_buffer b)\<lparr>nb_data := fst (snd (snd res))\<rparr>\<rparr>;
            w1 = w\<lparr>fw_file := fst (snd (snd (snd res))), w_progress := snd (snd (snd (snd res))),
                   w_buffers := b1 # tl (w_buffers w)\<rparr>
        in if \<not> fst res
           then (fst (snd res), pool, w1\<lparr>w_error := True, tw_worker := Worker_exited\<rparr>)
           else
             let signal = (of_nat (length (w_buffers w1)) = w_max_buffers w1);
                 pool1 = lease_release b1 pool;
                 w2 = w1\<lparr>w_buffers := tl (w_buffers w1)\<rparr>;
                 w3 = (if signal then w2\<lparr>w_waiting := signal_availibility (w_waiting w2)\<rparr>
                       else w2)
             in file_writer_entry (fst (snd res)) fsync_ok pool1 w3)"
  by pat_completeness auto
termination
  by (relation "measure (\<lambda>(script, fsync_ok, pool, w).
        2 * length (w_buffers w) + (if tw_cond w then 1 else 0))") auto

text \<open>
  What the worker thread does when it gets to run: nothing once it has returned; from a
  wait it goes on only when the condition has been signalled, taking the signal.
\<close>

definition file_writer_worker ::
  "int list \<Rightarrow> bool \<Rightarrow> aio_buffer_pool \<Rightarrow> file_writer
     \<Rightarrow> int list \<times> aio_buffer_pool \<times> file_writer" where
  "file_writer_worker script fsync_ok pool w =
     (case tw_worker w of
        Worker_exited \<Rightarrow> (script, pool, w)
      | Worker_started \<Rightarrow> file_writer_entry script fsync_ok pool w
      | Worker_waiting \<Rightarrow>
          if tw_cond w then file_writer_entry script fsync_ok pool (w\<lparr>tw_cond := False\<rparr>)
          else (script, pool, w))"

text \<open>
  \<^verbatim>\<open>threaded_writer::do_close\<close> sets \<^verbatim>\<open>quit_\<close>, signals the condition and joins the
  worker, which returns at its next test of \<^verbatim>\<open>quit_\<close>.
  \<^verbatim>\<open>file_writer::do_close\<close> then decides about the file.
\<close>

definition threaded_writer_do_close :: "'a threaded_writer_scheme \<Rightarrow> 'a threaded_writer_scheme" where
  "threaded_writer_do_close w =
     w\<lparr>tw_quit := True, tw_cond := True, tw_task := False, tw_worker := Worker_exited\<rparr>"

definition file_writer_do_close :: "file_writer \<Rightarrow> file_writer" where
  "file_writer_do_close w =
     (let w1 = threaded_writer_do_close w
      in if f_opened (fw_file w1) then
           let remove = (w_finalizing w1 = 0 \<and> f_position (fw_file w1) = 0);
               f1 = (if \<not> remove \<and> fw_preallocated w1 then snd (file_truncate (fw_file w1))
                     else fw_file w1);
               f2 = file_close f1;
               f3 = (if remove then remove_file f2 else f2)
           in w1\<lparr>fw_file := f3\<rparr>
         else w1)"

text \<open>
  \<^verbatim>\<open>writer_base::close\<close>: \<^verbatim>\<open>do_close\<close>, then the waiters are removed and the queue
  is cleared, which gives the queued buffers back to the pool.
\<close>

definition file_writer_close ::
  "aio_buffer_pool \<Rightarrow> file_writer \<Rightarrow> aio_buffer_pool \<times> file_writer" where
  "file_writer_close pool w =
     (let w1 = file_writer_do_close w
      in (release_all (w_buffers w1) pool, w1\<lparr>w_waiting := [], w_buffers := []\<rparr>))"

text \<open>
  \<^verbatim>\<open>file_writer::preallocate\<close>: refused with a latched error, a non-empty queue or after
  finalize was requested; otherwise the file is extended to the old position plus
  \<open>sz\<close> and positioned back.
\<close>

definition file_writer_preallocate :: "u64 \<Rightarrow> file_writer \<Rightarrow> aio_result \<times> file_writer" where
  "file_writer_preallocate sz w =
     (if w_error w \<or> w_buffers w \<noteq> [] \<or> w_finalizing w \<noteq> 0 then (aio_error, w)
      else
        let oldPos = f_position (fw_file w)
        in if oldPos < 0 then (aio_error, w)
           else
             let seek_offet = sint ((of_int oldPos :: u64) + sz);
                 (p1, f1) = file_seek_begin seek_offet (fw_file w);
                 f2 = (if p1 = seek_offet then snd (file_truncate f1) else f1);
                 (p2, f3) = file_seek_begin oldPos f2;
                 w1 = w\<lparr>fw_file := f3\<rparr>
             in if p2 \<noteq> oldPos then (aio_error, w1\<lparr>w_error := True\<rparr>)
                else (aio_ok, w1\<lparr>fw_preallocated := True\<rparr>))"

section \<open>Factory holders\<close>

text \<open>
  A factory holder owns at most one factory through \<^verbatim>\<open>impl_\<close>. The assignment
  operators compare the addresses of the two holders, so the holders live in a store from
  addresses to the contents of \<^verbatim>\<open>impl_\<close>. Cloning a factory copies it.
  \<^verbatim>\<open>reader_factory_holder\<close> and \<^verbatim>\<open>writer_factory_holder\<close> have the same
  statements.
\<close>

datatype reader_factory =
    File_reader_factory string
  | View_reader_factory string string_view
  | String_reader_factory string "byte list"

datatype writer_factory =
    File_writer_factory string bool
  | Buffer_writer_factory string u64

definition reader_factory_clone :: "reader_factory \<Rightarrow> reader_factory" where
  "reader_factory_clone f = f"

definition writer_factory_clone :: "writer_factory \<Rightarrow> writer_factory" where
  "writer_factory_clone f = f"

type_synonym address = nat

definition reader_holder_copy_assign ::
  "address \<Rightarrow> address \<Rightarrow> (address \<Rightarrow> reader_factory option)
     \<Rightarrow> (address \<Rightarrow> reader_factory option)" where
  "reader_holder_copy_assign this op st =
     (if this \<noteq> op \<and> st op \<noteq> None
      then st(this := map_option reader_factory_clone (st op))
      else st)"

definition reader_holder_move_assign ::
  "address \<Rightarrow> address \<Rightarrow> (address \<Rightarrow> reader_factory option)
     \<Rightarrow> (address \<Rightarrow> reader_factory option)" where
  "reader_holder_move_assign this op st =
     (if this \<noteq> op then (st(this := st op))(op := None) else st)"

definition writer_holder_copy_assign ::
  "address \<Rightarrow> address \<Rightarrow> (address \<Rightarrow> writer_factory option)
     \<Rightarrow> (address \<Rightarrow> writer_factory option)" where
  "writer_holder_copy_assign this op st =
     (if this \<noteq> op \<and> st op \<noteq> None
      then st(this := map_option writer_factory_clone (st op))
      else st)"

definition writer_holder_move_assign ::
  "address \<Rightarrow> address \<Rightarrow> (address \<Rightarrow> writer_factory option)
     \<Rightarrow> (address \<Rightarrow> writer_factory option)" where
  "writer_holder_move_assign this op st =
     (if this \<noteq> op then (st(this := st op))(op := None) else st)"

text \<open>
  The move constructor builds a new holder at \<open>this\<close> from the one at \<open>op\<close> and
  leaves \<open>op\<close> empty; the copy constructor clones when \<open>op\<close> holds a factory.
  \<^verbatim>\<open>operator bool\<close> says whether \<^verbatim>\<open>impl_\<close> is set.
\<close>

definition reader_holder_move_ctor ::
  "address \<Rightarrow> address \<Rightarrow> (address \<Rightarrow> reader_factory option)
     \<Rightarrow> (address \<Rightarrow> reader_factory option)" where
  "reader_holder_move_ctor this op st = (st(this := st op))(op := None)"

definition writer_holder_move_ctor ::
  "address \<Rightarrow> address \<Rightarrow> (address \<Rightarrow> writer_factory option)
     \<Rightarrow> (address \<Rightarrow> writer_factory option)" where
  "writer_holder_move_ctor this op st = (st(this := st op))(op := None)"

definition holder_bool :: "address \<Rightarrow> (address \<Rightarrow> 'f option) \<Rightarrow> bool" where
  "holder_bool this st = (st this \<noteq> None)"


section \<open>The long form of an IPv6 address\<close>

text \<open>
  \<^verbatim>\<open>std::string_view::find\<close> and \<^verbatim>\<open>rfind\<close> for one character: the first position at
  or after \<open>pos\<close>, and the last position at or before \<open>pos\<close>, that holds the
  character, or \<^verbatim>\<open>npos\<close>, the largest \<^verbatim>\<open>size_t\<close>.
\<close>

definition npos :: nat where
  "npos = 2 ^ 64 - 1"

fun find_first :: "char \<Rightarrow> string \<Rightarrow> nat option" where
  "find_first c [] = None"
| "find_first c (x # xs) = (if x = c then Some 0 else map_option Suc (find_first c xs))"

definition sv_find :: "string \<Rightarrow> char \<Rightarrow> nat \<Rightarrow> nat" where
  "sv_find s c pos = (case find_first c (drop pos s) of None \<Rightarrow> npos | Some k \<Rightarrow> pos + k)"

definition sv_rfind :: "string \<Rightarrow> char \<Rightarrow> nat \<Rightarrow> nat" where
  "sv_rfind s c pos =
     (case find_first c (rev (take (Suc pos) s)) of
        None \<Rightarrow> npos
      | Some k \<Rightarrow> length (take (Suc pos) s) - 1 - k)"

text \<open>
  The test and conversion both loops apply to a character: digits and \<open>a\<close> to \<open>f\<close>
  are kept, \<open>A\<close> to \<open>F\<close> are moved to lower case by adding \<^verbatim>\<open>'a' - 'A'\<close>, anything
  else is invalid. A group is converted character by character and is invalid when one of
  its characters is.
\<close>

definition convert_char :: "char \<Rightarrow> char option" where
  "convert_char c =
     (let n = (of_char c :: nat)
      in if (48 \<le> n \<and> n \<le> 57) \<or> (97 \<le> n \<and> n \<le> 102) then Some c
         else if 65 \<le> n \<and> n \<le> 70 then Some (char_of (n + 32))
         else None)"

fun convert_group :: "string \<Rightarrow> string option" where
  "convert_group [] = Some []"
| "convert_group (c # cs) =
     (case convert_char c of
        None \<Rightarrow> None
      | Some d \<Rightarrow> (case convert_group cs of None \<Rightarrow> None | Some ds \<Rightarrow> Some (d # ds)))"

text \<open>Writing a group into the output array from index \<open>p\<close> on.\<close>

definition write_group :: "string \<Rightarrow> nat \<Rightarrow> string \<Rightarrow> string" where
  "write_group buf p g = take p buf @ g @ drop (p + length g) buf"

definition zero_address :: string where
  "zero_address = ''0000:0000:0000:0000:0000:0000:0000:0000''"

text \<open>
  The first loop of \<^verbatim>\<open>do_get_ipv6_long_form\<close>, over the groups before a possible
  \<open>::\<close>. The result is \<^verbatim>\<open>None\<close> where the function returns the empty string, and
  otherwise the number of groups read, the position reached and the output array.
\<close>

function left_loop ::
  "string \<Rightarrow> nat \<Rightarrow> nat \<Rightarrow> nat \<Rightarrow> string \<Rightarrow> (nat \<times> nat \<times> string) option" where
  "left_loop s e left_segments start buf =
     (if left_segments < 8 \<and> start < e then
        let pos0 = sv_find s CHR '':'' start;
            pos = (if pos0 = npos then e else pos0)
        in if pos = start then
             (if left_segments = 0 then
                (if s ! (start + 1) \<noteq> CHR '':'' then None
                 else Some (left_segments, pos + 1, buf))
              else Some (left_segments, pos, buf))
           else
             let group_length = pos - start
             in if group_length > 4 then None
                else
                  (case convert_group (take group_length (drop start s)) of
                     None \<Rightarrow> None
                   | Some g \<Rightarrow>
                       left_loop s e (left_segments + 1) (pos + 1)
                         (write_group buf (5 * left_segments + (4 - group_length)) g))
      else Some (left_segments, start, buf))"
  by pat_completeness auto
termination
  by (relation "measure (\<lambda>(s, e, left_segments, start, buf). 8 - left_segments)") auto

text \<open>
  The second loop, over the groups after the \<open>::\<close>, from the right. \<open>e\<close> is
  \<^verbatim>\<open>end\<close>; the loop decrements it before it looks for the colon, also when it then
  leaves through \<^verbatim>\<open>break\<close>. The group length is \<^verbatim>\<open>end - pos\<close> in \<^verbatim>\<open>size_t\<close>; the
  copying loop \<^verbatim>\<open>for (i = end; i > pos; --i)\<close> runs over the characters after the colon
  and not at all when \<^verbatim>\<open>pos\<close> is \<^verbatim>\<open>npos\<close>.
\<close>

function right_loop ::
  "string \<Rightarrow> nat \<Rightarrow> nat \<Rightarrow> nat \<Rightarrow> nat \<Rightarrow> string \<Rightarrow> (nat \<times> string) option" where
  "right_loop s start left_segments right_segments e buf =
     (if left_segments + right_segments < 8 \<and> start < e then
        let e1 = e - 1;
            pos = sv_rfind s CHR '':'' e1;
            group_length = (e1 + 2 ^ 64 - pos) mod 2 ^ 64;
            chars = (if pos = npos then [] else take (e1 - pos) (drop (pos + 1) s))
        in if group_length = 0 then
             (if left_segments \<noteq> 0 \<or> right_segments \<noteq> 0 then None else Some (e1, buf))
           else if group_length > 4 then None
           else
             (case convert_group chars of
                None \<Rightarrow> None
              | Some g \<Rightarrow>
                  right_loop s start left_segments (right_segments + 1) pos
                    (write_group buf (5 * (8 - right_segments) - 1 - length g) g))
      else Some (e, buf))"
  by pat_completeness auto
termination
  by (relation "measure (\<lambda>(s, start, left_segments, right_segments, e, buf).
        8 - (left_segments + right_segments))") auto

declare left_loop.simps [simp del] right_loop.simps [simp del]

text \<open>
  \<^verbatim>\<open>get_ipv6_long_form\<close> for \<^verbatim>\<open>std::string_view\<close>: brackets are taken off, the part
  between them must have 2 to 39 characters, the two loops run, and what is left between
  \<^verbatim>\<open>start\<close> and \<^verbatim>\<open>end\<close> makes the address invalid. The empty string is the result
  for every invalid input.
\<close>

definition get_ipv6_long_form :: "string \<Rightarrow> string" where
  "get_ipv6_long_form short_address =
     (if short_address \<noteq> [] \<and> hd short_address = CHR ''[''
         \<and> last short_address \<noteq> CHR '']'' then []
      else
        let bracket = (short_address \<noteq> [] \<and> hd short_address = CHR ''['');
            start = (if bracket then 1 else 0);
            e = (if bracket then length short_address - 1 else length short_address)
        in if e - start < 2 \<or> e - start > 39 then []
           else
             (case left_loop short_address e 0 start zero_address of
                None \<Rightarrow> []
              | Some (left_segments, start1, buf1) \<Rightarrow>
                  (case right_loop short_address start1 left_segments 0 e buf1 of
                     None \<Rightarrow> []
                   | Some (e1, buf2) \<Rightarrow> if start1 < e1 then [] else buf2)))"

section \<open>Concrete inputs\<close>

text \<open>
  A two-byte view \<open>AB\<close> at address \<open>0x1000\<close> in a memory that is zero elsewhere, and
  a pool of one buffer of the default size on a heap mapping at \<open>0x100000\<close> with pages
  of 4096 bytes.
\<close>

definition example_memory :: memory where
  "example_memory = (\<lambda>a. if a = 0x1000 then 0x41 else if a = 0x1001 then 0x42 else 0)"

definition example_view :: string_view where
  "example_view = \<lparr>sv_data = 0x1000, sv_size = 2\<rparr>"

definition example_pool :: aio_buffer_pool where
  "example_pool = aio_buffer_pool_ctor 4096 (Mapped 0x100000) 1 0 False"

text \<open>
  A file of unknown size (a pipe, say): \<^verbatim>\<open>size()\<close> answers \<open>-1\<close>, seeking and
  spawning succeed, the first read delivers three bytes and the second one fails. The
  reader constructed on it at offset 0 is not seekable.
\<close>

definition example_stream :: read_file where
  "example_stream = \<lparr>rf_opened = True, rf_size = - 1, rf_seek = (\<lambda>off. off), rf_spawn = True,
                      rf_reads = [Some [1, 2, 3], None]\<rparr>"

definition example_stream_reader :: file_reader where
  "example_stream_reader = snd (file_reader_ctor 1 example_pool example_stream 0 nosize 4)"


text \<open>
  The reader on the example stream after its worker has gone through its loop once: the
  queue holds a buffer with the three bytes of the first read, and the failure of the
  second read has set \<^verbatim>\<open>error_\<close>.
\<close>

definition example_failed_reader :: file_reader where
  "example_failed_reader = snd (file_reader_entry 1 example_pool example_stream_reader)"

text \<open>
  Holders at addresses 1, 2 and 3: the first two hold factories, then the holder at 3 is
  move-constructed from the one at 2, which leaves that one moved-from.
\<close>

definition example_reader_holders :: "address \<Rightarrow> reader_factory option" where
  "example_reader_holders =
     reader_holder_move_ctor 3 2
       ((\<lambda>a. None)(1 := Some (File_reader_factory ''in''),
                     2 := Some (View_reader_factory ''view'' example_view)))"

definition example_writer_holders :: "address \<Rightarrow> writer_factory option" where
  "example_writer_holders =
     writer_holder_move_ctor 3 2
       ((\<lambda>a. None)(1 := Some (File_writer_factory ''out'' False),
                     2 := Some (Buffer_writer_factory ''buffer'' 1024)))"

text \<open>
  A path that names no file yet and a path that names a file of 200 bytes; a file writer
  without fsync opened on the first at offset 0 and one opened on the second at offset 100,
  each after its worker has run for the first time.
\<close>

definition no_file :: out_file where
  "no_file = \<lparr>f_opened = False, f_position = 0, f_length = 0, f_exists = False\<rparr>"

definition old_file :: out_file where
  "old_file = \<lparr>f_opened = False, f_position = 0, f_length = 200, f_exists = True\<rparr>"

definition example_writer :: file_writer where
  "example_writer =
     snd (snd (file_writer_worker [] True example_pool
       (the (file_writer_factory_open True True False no_file 0 False 0))))"

definition example_fsync_writer :: file_writer where
  "example_fsync_writer =
     snd (snd (file_writer_worker [] True example_pool
       (the (file_writer_factory_open True True True no_file 0 False 0))))"

definition example_offset_writer :: file_writer where
  "example_offset_writer =
     snd (snd (file_writer_worker [] True example_pool
       (the (file_writer_factory_open True True False old_file 100 False 0))))"

text \<open>
  A buffer writer with a limit of 2 bytes that has been handed a lease with three bytes,
  which latches its error.
\<close>

definition full_buffer_writer :: buffer_writer where
  "full_buffer_writer =
     snd (buffer_writer_add_buffer
       \<lparr>l_buffer = \<lparr>nb_ptr = 0x101000, nb_capacity = 262144, nb_data = [1, 2, 3]\<rparr>,
        l_pool = True\<rparr> 0 (buffer_writer_ctor [] 2 False))"

section \<open>Notions used in the statements\<close>

text \<open>
  The number of bytes one call of \<^verbatim>\<open>view_reader::do_get_buffer\<close> copies and the address
  it copies from, as the function computes them.
\<close>

definition view_to_read :: "aio_buffer_pool \<Rightarrow> view_reader \<Rightarrow> u64" where
  "view_to_read pool r =
     (if r_remaining r \<noteq> nosize \<and> r_remaining r < nb_capacity (last (p_buffers pool))
      then r_remaining r else nb_capacity (last (p_buffers pool)))"

definition view_src :: "view_reader \<Rightarrow> u64" where
  "view_src r = sv_data (r_view r) + r_start_offset r + r_size r - r_remaining r"

text \<open>
  Rounding up to a multiple of the page size, in unbounded arithmetic, and the buffer size
  a pool uses when asked for size 0.
\<close>

definition round_up :: "nat \<Rightarrow> nat \<Rightarrow> nat" where
  "round_up n p = ((n + p - 1) div p) * p"

definition default_buffer_size :: "u64 \<Rightarrow> u64" where
  "default_buffer_size buffer_size0 = (if buffer_size0 = 0 then 256 * 1024 else buffer_size0)"

text \<open>
  A pool of one buffer of \<open>2\<^sup>6\<^sup>4 - 1\<close> bytes on pages of 4096 bytes; the allocation of
  what the constructor asks for succeeds at \<open>0x100000\<close>.
\<close>

definition overflow_pool :: aio_buffer_pool where
  "overflow_pool = aio_buffer_pool_ctor 4096 (Mapped 0x100000) 1 0xFFFFFFFFFFFFFFFF False"

text \<open>
  The long form of an address: eight groups of four hexadecimal digits, of either case,
  with a colon between two groups, which makes 39 characters. \<open>lower_case\<close> is the
  conversion the function applies to the digits \<open>A\<close> to \<open>F\<close>. An input has a double
  colon at a position when the character there and the next one are colons.
\<close>

definition hex_digit :: "char \<Rightarrow> bool" where
  "hex_digit c = (c \<in> set ''0123456789abcdefABCDEF'')"

definition lower_case :: "char \<Rightarrow> char" where
  "lower_case c = (if c \<in> set ''ABCDEF'' then char_of (of_char c + 32 :: nat) else c)"

fun long_form_from :: "nat \<Rightarrow> string \<Rightarrow> bool" where
  "long_form_from i [] = (i = 39)"
| "long_form_from i (c # cs) =
     ((if i mod 5 = 4 then c = CHR '':'' else hex_digit c) \<and> long_form_from (i + 1) cs)"

definition long_form :: "string \<Rightarrow> bool" where
  "long_form L = long_form_from 0 L"

definition double_colon_at :: "string \<Rightarrow> nat \<Rightarrow> bool" where
  "double_colon_at s i = (i + 1 < length s \<and> s ! i = CHR '':'' \<and> s ! (i + 1) = CHR '':'')"


section \<open>Facts about sizes\<close>

lemma nosize_neq0: "nosize \<noteq> 0"
  by (simp add: nosize_def)

lemma unat_nosize: "unat nosize = 2 ^ 64 - 1"
  by (simp add: nosize_def unsigned_minus_1_eq_mask mask_eq_exp_minus_1)

lemma unat_nosize_minus: "unat (nosize - x) = 2 ^ 64 - 1 - unat x"
proof -
  have "x \<le> nosize" by (simp add: nosize_def)
  then show ?thesis by (simp add: unat_sub unat_nosize)
qed

lemma unat_add_u64:
  fixes x y :: u64
  assumes "unat x + unat y < 2 ^ 64"
  shows "unat (x + y) = unat x + unat y"
  using assms unat_add_lem [of x y] by simp

section \<open>The buffer budget\<close>

lemma one_le_u64: "(x :: u64) \<noteq> 0 \<Longrightarrow> 1 \<le> x"
  by (simp add: word_le_nat_alt unat_gt_0 Suc_leI)

text \<open>
  Claim C10. A reader base and a writer base constructed with \<^verbatim>\<open>max_buffers\<close> 0 store a
  budget of 1, and whatever the argument the stored budget is at least 1. The field is
  constant; the view reader and the buffer writer, which pass 1, and the operations on
  them keep it.
\<close>

theorem max_buffers_at_least_one:
  "r_max_buffers (reader_base_ctor 0) = 1
   \<and> w_max_buffers (writer_base_ctor cb 0) = 1
   \<and> 1 \<le> r_max_buffers (reader_base_ctor n)
   \<and> 1 \<le> w_max_buffers (writer_base_ctor cb n)
   \<and> unat (r_max_buffers (reader_base_ctor n)) \<ge> 1
   \<and> unat (w_max_buffers (writer_base_ctor cb n)) \<ge> 1"
proof -
  have r: "1 \<le> r_max_buffers (reader_base_ctor n)"
    by (simp add: reader_base_ctor_def one_le_u64)
  have w: "1 \<le> w_max_buffers (writer_base_ctor cb n)"
    by (simp add: writer_base_ctor_def one_le_u64)
  from r w show ?thesis
    by (simp add: reader_base_ctor_def writer_base_ctor_def word_le_nat_alt)
qed

theorem max_buffers_at_least_one_witness:
  "r_max_buffers (reader_base_ctor 0) = 1
   \<and> w_max_buffers (writer_base_ctor False 0) = 1
   \<and> 1 \<le> r_max_buffers (reader_base_ctor 4)
   \<and> 1 \<le> w_max_buffers (writer_base_ctor False 4)"
  using max_buffers_at_least_one [of False 4] by simp


section \<open>Seeking\<close>

lemma seek_offset_neq_nosize: "seek_offset r ofs \<noteq> nosize"
  by (simp add: seek_offset_def nosize_neq0)

lemma seek_set_fields:
  "r_start_offset (seek_set r off sz) = off"
  "r_size (seek_set r off sz) =
     (if sz \<noteq> nosize then sz else if r_max_size r \<noteq> nosize then r_max_size r - off else nosize)"
  "r_remaining (seek_set r off sz) = r_size (seek_set r off sz)"
  "r_eof (seek_set r off sz) = (r_size (seek_set r off sz) = 0)"
  "r_get_buffer_called (seek_set r off sz) = False"
  "r_error (seek_set r off sz) = r_error r"
  "r_max_size (seek_set r off sz) = r_max_size r"
  "r_max_buffers (seek_set r off sz) = r_max_buffers r"
  "r_buffers (seek_set r off sz) = []"
  by (simp_all add: seek_set_def Let_def)

lemma seek_unfold:
  "seek sk ds self ofs len pool r =
      (if seek_size r ofs len \<noteq> nosize \<and> nosize - seek_size r ofs len \<le> seek_offset r ofs
       then (False, pool, r)
       else if seek_size r ofs len \<noteq> nosize \<and> seek_offset r ofs + seek_size r ofs len > r_max_size r
       then (False, pool, r)
       else if r_error r then (False, pool, r)
       else if \<not> seek_change r (seek_offset r ofs) (seek_size r ofs len) then (True, pool, r)
       else if \<not> sk r \<and> (r_start_offset r \<noteq> nosize \<or> seek_offset r ofs \<noteq> 0)
       then (False, pool, r)
       else (fst (ds (seek_set r (seek_offset r ofs) (seek_size r ofs len))),
         release_all (r_buffers r) (pool\<lparr>p_waiting := remove_waiter self (p_waiting pool)\<rparr>),
         snd (ds (seek_set r (seek_offset r ofs) (seek_size r ofs len)))))"
  unfolding seek_def Let_def split_beta by (rule refl)

lemma seek_cases:
  obtains (rejected) "seek sk ds self ofs len pool r = (False, pool, r)"
  | (unchanged) "seek sk ds self ofs len pool r = (True, pool, r)"
      "\<not> seek_change r (seek_offset r ofs) (seek_size r ofs len)" "\<not> r_error r"
  | (changed) "seek sk ds self ofs len pool r =
        (fst (ds (seek_set r (seek_offset r ofs) (seek_size r ofs len))),
         release_all (r_buffers r) (pool\<lparr>p_waiting := remove_waiter self (p_waiting pool)\<rparr>),
         snd (ds (seek_set r (seek_offset r ofs) (seek_size r ofs len))))"
      "seek_change r (seek_offset r ofs) (seek_size r ofs len)" "\<not> r_error r"
  using seek_unfold [of sk ds self ofs len pool r] by presburger

lemma seek_nosize_offset:
  "seek sk ds self nosize len pool r =
   seek sk ds self (if r_start_offset r = nosize then 0 else r_start_offset r)
      (if len = nosize then r_size r else len) pool r"
  by (simp add: seek_def seek_offset_def seek_size_def Let_def nosize_neq0)

lemma seek_rejects_overflow:
  assumes "seek_size r ofs len \<noteq> nosize"
     and "2 ^ 64 \<le> unat (seek_offset r ofs) + unat (seek_size r ofs len)"
  shows "\<not> fst (seek sk ds self ofs len pool r)"
proof -
  from assms have "nosize - seek_size r ofs len \<le> seek_offset r ofs"
    by (simp add: word_le_nat_alt unat_nosize_minus)
  with assms show ?thesis by (simp add: seek_unfold)
qed

lemma seek_rejects_range:
  assumes "seek_size r ofs len \<noteq> nosize"
     and "unat (r_max_size r) < unat (seek_offset r ofs) + unat (seek_size r ofs len)"
  shows "\<not> fst (seek sk ds self ofs len pool r)"
proof (cases "2 ^ 64 \<le> unat (seek_offset r ofs) + unat (seek_size r ofs len)")
  case True
  with assms show ?thesis by (simp add: seek_rejects_overflow)
next
  case False
  then have "unat (seek_offset r ofs + seek_size r ofs len)
             = unat (seek_offset r ofs) + unat (seek_size r ofs len)"
    by (simp add: unat_add_u64)
  with assms have "r_max_size r < seek_offset r ofs + seek_size r ofs len"
    by (simp add: word_less_nat_alt)
  with assms show ?thesis by (simp add: seek_unfold)
qed

lemma seek_rejects_nonseekable:
  assumes "seek_change r (seek_offset r ofs) (seek_size r ofs len)"
     and "\<not> sk r"
     and "seek_offset r ofs \<noteq> 0 \<or> r_start_offset r \<noteq> nosize \<or> r_error r"
  shows "\<not> fst (seek sk ds self ofs len pool r)"
  using assms by (auto simp add: seek_unfold)

lemma seek_to_end:
  assumes ok: "fst (seek sk ds self ofs nosize pool r)"
      and ofs: "ofs \<noteq> nosize"
      and known: "r_max_size r \<noteq> nosize"
      and ds: "\<And>x. r_start_offset (snd (ds x)) = r_start_offset x"
              "\<And>x. r_size (snd (ds x)) = r_size x"
  shows "r_start_offset (snd (snd (seek sk ds self ofs nosize pool r))) = ofs
         \<and> r_size (snd (snd (seek sk ds self ofs nosize pool r))) = r_max_size r - ofs"
proof -
  have eff: "seek_offset r ofs = ofs" "seek_size r ofs nosize = nosize"
    using ofs by (simp_all add: seek_offset_def seek_size_def)
  show ?thesis
  proof (cases rule: seek_cases [of sk ds self ofs nosize pool r])
    case rejected
    with ok show ?thesis by simp
  next
    case unchanged
    then have "ofs = r_start_offset r" and "ofs + r_size r = r_max_size r"
      by (simp_all add: eff seek_change_def)
    then have "r_size r = r_max_size r - ofs" by (simp add: algebra_simps)
    with unchanged \<open>ofs = r_start_offset r\<close> show ?thesis by simp
  next
    case changed
    with known show ?thesis by (simp add: eff ds seek_set_fields)
  qed
qed

text \<open>The definitions that evaluate the concrete inputs.\<close>

lemmas example_defs = example_memory_def example_view_def example_pool_def
  aio_buffer_pool_ctor_def adjusted_buffer_size_def example_stream_def example_stream_reader_def

lemmas reader_defs = view_reader_ctor_def string_reader_ctor_def reader_base_ctor_def
  reader_base.extend_def threaded_reader.extend_def threaded_reader.fields_def file_reader.fields_def
  file_reader_ctor_def file_reader_seek_def file_reader_do_seek_def file_reader_seekable_def
  view_seek_def seek_unfold seek_offset_def seek_size_def seek_change_def seek_set_def
  view_reader_factory_open_def nosize_def Let_def

lemmas pipe_defs = view_get_buffer_def view_do_get_buffer_def pool_get_buffer_def lease_bool_def
    nb_append_def mem_read_def buffer_writer_ctor_def writer_base_ctor_def writer_base.extend_def
    buffer_writer_add_buffer_def add_buffer_def buffer_writer_do_add_buffer_def nb_empty_def
    nb_size_def lease_release_def pool_release_def nb_clear_def signal_availibility_def
    lease_default_def pipe_output_def


text \<open>
  A file reader leaves its constructor with \<^verbatim>\<open>error_\<close> set or with a start offset:
  the constructor's own seek meets the fresh state, in which every offset differs from
  \<^verbatim>\<open>start_offset_\<close>. A later seek keeps this, so a file reader that has delivered
  data has started.
\<close>

lemma file_reader_do_seek_base:
  "r_start_offset (snd (file_reader_do_seek x)) = r_start_offset x"
  "r_size (snd (file_reader_do_seek x)) = r_size x"
  "r_error (snd (file_reader_do_seek x)) = r_error x"
  by (simp_all add: file_reader_do_seek_def Let_def)

lemma seek_started:
  assumes "\<And>x. r_start_offset (snd (ds x)) = r_start_offset x"
      and "\<And>x. r_error (snd (ds x)) = r_error x"
      and "r_error r \<or> r_start_offset r \<noteq> nosize"
  shows "r_error (snd (snd (seek sk ds self ofs len pool r)))
         \<or> r_start_offset (snd (snd (seek sk ds self ofs len pool r))) \<noteq> nosize"
  by (cases rule: seek_cases [of sk ds self ofs len pool r])
     (use assms in \<open>simp_all add: seek_set_fields seek_offset_neq_nosize\<close>)

lemma seek_fresh_true:
  assumes "r_start_offset r = nosize" and "fst (seek sk ds self ofs len pool r)"
  shows "snd (snd (seek sk ds self ofs len pool r)) = snd (ds (seek_set r (seek_offset r ofs) (seek_size r ofs len)))"
proof -
  have "seek_change r (seek_offset r ofs) (seek_size r ofs len)"
    using assms(1) seek_offset_neq_nosize [of r ofs] by (simp add: seek_change_def)
  then show ?thesis
  by (cases rule: seek_cases [of sk ds self ofs len pool r])
     (use assms in \<open>simp_all\<close>)
qed

lemma file_reader_ctor_started:
  "r_error (snd (file_reader_ctor self pool f offset sz mb))
   \<or> r_start_offset (snd (file_reader_ctor self pool f offset sz mb)) \<noteq> nosize"
proof (cases "rf_opened f")
  case False
  then show ?thesis by (simp add: file_reader_ctor_def Let_def)
next
  case True
  define r0 where "r0 = threaded_reader.extend (reader_base.extend (reader_base_ctor mb)
           (threaded_reader.fields False False False Worker_exited)) (file_reader.fields f)"
  define r1 where "r1 = (if 0 \<le> rf_size f then r0\<lparr>r_max_size := of_int (rf_size f)\<rparr> else r0)"
  have fresh: "r_start_offset r1 = nosize"
    by (simp add: r1_def r0_def reader_base_ctor_def reader_base.extend_def threaded_reader.extend_def
        threaded_reader.fields_def file_reader.fields_def)
  have ctor: "snd (file_reader_ctor self pool f offset sz mb) =
     (let res = file_reader_seek self offset sz pool r1
      in if \<not> fst res then (snd (snd res))\<lparr>r_error := True\<rparr> else snd (snd res))"
    using True by (simp add: file_reader_ctor_def Let_def r1_def r0_def split_beta)
  show ?thesis
  proof (cases "fst (file_reader_seek self offset sz pool r1)")
    case False
    then show ?thesis by (simp add: ctor Let_def)
  next
    case True
    then have "snd (snd (file_reader_seek self offset sz pool r1)) =
       snd (file_reader_do_seek (seek_set r1 (seek_offset r1 offset) (seek_size r1 offset sz)))"
      unfolding file_reader_seek_def using fresh by (rule seek_fresh_true [rotated])
    with True show ?thesis
      by (simp add: ctor Let_def file_reader_do_seek_base seek_set_fields seek_offset_neq_nosize)
  qed
qed


lemma example_stream_reader_state:
  "r_start_offset example_stream_reader = 0 \<and> r_max_size example_stream_reader = nosize
   \<and> r_size example_stream_reader = nosize \<and> \<not> r_error example_stream_reader
   \<and> \<not> r_get_buffer_called example_stream_reader"
  by (simp add: example_defs reader_defs release_all_def)

text \<open>
  The parts of the seek semantics that the code keeps are the lemmas above: an offset of
  \<^verbatim>\<open>nosize\<close> stands for the current offset and then a size of \<^verbatim>\<open>nosize\<close> for the current
  size (\<open>seek_nosize_offset\<close>), and a seek is rejected on overflow, on a range beyond
  \<^verbatim>\<open>max_size_\<close> and on a change of a reader that is not seekable
  (\<open>seek_rejects_overflow\<close>, \<open>seek_rejects_range\<close>, \<open>seek_rejects_nonseekable\<close>).
  The range test is made only when a size is given. For a view reader, a seek to a new
  offset with \<^verbatim>\<open>nosize\<close> as size is always accepted.
\<close>

lemma length_mem_read [simp]: "length (mem_read m a n) = n"
  by (simp add: mem_read_def)

lemma seek_set_view: "r_view (seek_set r off sz) = r_view r"
  by (simp add: seek_set_def Let_def)

lemma view_seek_changed:
  assumes "ofs \<noteq> nosize" and "\<not> r_error r" and "ofs \<noteq> r_start_offset r"
  shows "view_seek self ofs nosize pool r =
     (True, release_all (r_buffers r) (pool\<lparr>p_waiting := remove_waiter self (p_waiting pool)\<rparr>),
      seek_set r ofs nosize)"
  using assms
  by (simp add: view_seek_def seek_unfold seek_offset_def seek_size_def seek_change_def)

lemma u64_sub_wraps:
  assumes "(a :: u64) < b"
  shows "a < a - b" and "unat (a - b) = 2 ^ 64 - (unat b - unat a)"
proof -
  have lt: "unat a < unat b" using assms by (simp add: word_less_nat_alt)
  have b: "unat b < 2 ^ 64" using unsigned_less [of b, where ?'a = nat] by simp
  have eq: "unat (a - b) = unat a + 2 ^ 64 - unat b"
    using lt by (simp add: unat_sub_if' word_size)
  show "a < a - b" using lt b by (simp add: word_less_nat_alt eq)
  show "unat (a - b) = 2 ^ 64 - (unat b - unat a)" using lt b by (simp add: eq)
qed

text \<open>
  Within the source, the seek to the end does what its name says: the reader stands at
  the offset, its size and the bytes that remain are the distance to the end of the
  source, and it is at its end exactly when the offset is the end.
\<close>

lemma seek_to_end_in_range:
  assumes "ofs \<noteq> nosize" and "r_max_size r \<noteq> nosize" and "ofs \<le> r_max_size r"
    and "\<not> r_error r" and "ofs \<noteq> r_start_offset r"
  shows "fst (view_seek self ofs nosize pool r)
     \<and> r_start_offset (snd (snd (view_seek self ofs nosize pool r))) = ofs
     \<and> unat (r_size (snd (snd (view_seek self ofs nosize pool r))))
         = unat (r_max_size r) - unat ofs
     \<and> r_remaining (snd (snd (view_seek self ofs nosize pool r)))
         = r_size (snd (snd (view_seek self ofs nosize pool r)))
     \<and> r_eof (snd (snd (view_seek self ofs nosize pool r))) = (ofs = r_max_size r)
     \<and> \<not> r_get_buffer_called (snd (snd (view_seek self ofs nosize pool r)))
     \<and> view_src (snd (snd (view_seek self ofs nosize pool r))) = sv_data (r_view r) + ofs"
proof -
  let ?r = "seek_set r ofs nosize"
  have sk: "view_seek self ofs nosize pool r =
     (True, release_all (r_buffers r) (pool\<lparr>p_waiting := remove_waiter self (p_waiting pool)\<rparr>), ?r)"
    using assms by (intro view_seek_changed)
  have sz: "r_size ?r = r_max_size r - ofs" "r_start_offset ?r = ofs" "r_remaining ?r = r_size ?r"
    "r_eof ?r = (r_size ?r = 0)" "\<not> r_get_buffer_called ?r"
    using assms(2) by (simp_all add: seek_set_fields)
  have "unat (r_max_size r - ofs) = unat (r_max_size r) - unat ofs"
    using assms(3) by (simp add: unat_sub)
  moreover have "(r_max_size r - ofs = 0) = (ofs = r_max_size r)" by auto
  ultimately show ?thesis
    by (simp add: sk sz view_src_def seek_set_view)
qed


text \<open>
  Claim C6, evaluated on the code. A seek of a view reader to a new offset beyond the end
  of its source, with \<^verbatim>\<open>nosize\<close> as size, is accepted. The reader then stands at that
  offset, and its size and the bytes that remain are \<^verbatim>\<open>max_size_ - offset\<close> wrapped
  around at 64 bits, \<open>2\<^sup>6\<^sup>4 - (offset - max_size_)\<close>, which is more than the whole source
  holds; the reader is not at its end, and its next read copies from the address
  \<open>offset\<close> bytes after the start of the view, which lies behind the view.
\<close>

theorem seek_to_end_past_the_end:
  assumes "ofs \<noteq> nosize" and "r_max_size r \<noteq> nosize" and "r_max_size r < ofs"
    and "\<not> r_error r" and "ofs \<noteq> r_start_offset r"
  shows "fst (view_seek self ofs nosize pool r)
     \<and> r_start_offset (snd (snd (view_seek self ofs nosize pool r))) = ofs
     \<and> r_size (snd (snd (view_seek self ofs nosize pool r))) = r_max_size r - ofs
     \<and> unat (r_size (snd (snd (view_seek self ofs nosize pool r))))
         = 2 ^ 64 - (unat ofs - unat (r_max_size r))
     \<and> r_max_size r < r_size (snd (snd (view_seek self ofs nosize pool r)))
     \<and> r_remaining (snd (snd (view_seek self ofs nosize pool r)))
         = r_size (snd (snd (view_seek self ofs nosize pool r)))
     \<and> \<not> r_eof (snd (snd (view_seek self ofs nosize pool r)))
     \<and> view_src (snd (snd (view_seek self ofs nosize pool r))) = sv_data (r_view r) + ofs"
proof -
  let ?r = "seek_set r ofs nosize"
  have sk: "view_seek self ofs nosize pool r =
     (True, release_all (r_buffers r) (pool\<lparr>p_waiting := remove_waiter self (p_waiting pool)\<rparr>), ?r)"
    using assms by (intro view_seek_changed)
  have sz: "r_size ?r = r_max_size r - ofs" "r_start_offset ?r = ofs" "r_remaining ?r = r_size ?r"
    "r_eof ?r = (r_size ?r = 0)"
    using assms(2) by (simp_all add: seek_set_fields)
  have big: "r_max_size r < r_max_size r - ofs"
    "unat (r_max_size r - ofs) = 2 ^ 64 - (unat ofs - unat (r_max_size r))"
    using assms(3) by (rule u64_sub_wraps)+
  then have "r_max_size r - ofs \<noteq> 0" by auto
  with big show ?thesis
    by (simp add: sk sz view_src_def seek_set_view)
qed

theorem seek_to_end_past_the_end_witness:
  "fst (view_seek 1 5 nosize example_pool (view_reader_ctor example_view))
   \<and> r_start_offset (snd (snd (view_seek 1 5 nosize example_pool (view_reader_ctor example_view)))) = 5
   \<and> r_max_size (view_reader_ctor example_view) = 2
   \<and> r_size (snd (snd (view_seek 1 5 nosize example_pool (view_reader_ctor example_view))))
       = 0xFFFFFFFFFFFFFFFD
   \<and> r_remaining (snd (snd (view_seek 1 5 nosize example_pool (view_reader_ctor example_view))))
       = 0xFFFFFFFFFFFFFFFD
   \<and> \<not> r_eof (snd (snd (view_seek 1 5 nosize example_pool (view_reader_ctor example_view))))
   \<and> view_src (snd (snd (view_seek 1 5 nosize example_pool (view_reader_ctor example_view))))
       = 0x1005"
proof -
  let ?r = "view_reader_ctor example_view"
  have r: "r_max_size ?r = 2" "r_start_offset ?r = nosize" "\<not> r_error ?r"
    "sv_data (r_view ?r) = 0x1000"
    by (simp_all add: view_reader_ctor_def reader_base_ctor_def reader_base.extend_def
          example_view_def Let_def)
  have "(2 :: u64) < 5" by simp
  then show ?thesis
    using seek_to_end_past_the_end [of 5 ?r 1 example_pool]
    by (simp add: r nosize_def)
qed

text \<open>
  The same on the path of \<^verbatim>\<open>view_reader_factory::open\<close>: opened at offset 5 on the view
  of two bytes, the factory returns a reader, and its first \<^verbatim>\<open>get_buffer\<close> fills a whole
  buffer of 256 KiB from the address 5 bytes after the start of the view.
\<close>

lemma open_past_the_end_reads_outside:
  "view_reader_factory_open example_view example_pool 5 nosize \<noteq> None
   \<and> (case view_reader_factory_open example_view example_pool 5 nosize of
        Some (pool, r) \<Rightarrow>
          fst (fst (view_get_buffer example_memory 1 2 pool r)) = aio_ok
          \<and> length (nb_data (l_buffer (snd (fst (view_get_buffer example_memory 1 2 pool r)))))
              = 262144
          \<and> view_src r = 0x1005)"
  by (simp add: example_defs reader_defs release_all_def view_get_buffer_def
        view_do_get_buffer_def pool_get_buffer_def lease_bool_def nb_append_def view_src_def
        remove_waiter_def)


section \<open>The state of a fresh in-memory reader\<close>

text \<open>
  Claim C2, evaluated on the code. The constructors of \<^verbatim>\<open>view_reader\<close> and
  \<^verbatim>\<open>string_reader\<close> leave \<^verbatim>\<open>start_offset_\<close> at its initialiser \<^verbatim>\<open>nosize\<close>,
  which is not 0; size, remaining bytes and the eof flag are as the claim says, and
  \<^verbatim>\<open>view_reader_factory::open\<close> with the default arguments returns the reader in
  exactly this state.
\<close>

theorem fresh_view_reader_state:
  "r_start_offset (view_reader_ctor v) = nosize
   \<and> r_start_offset (string_reader_ctor v) = nosize
   \<and> nosize \<noteq> (0 :: u64)
   \<and> r_size (view_reader_ctor v) = sv_size v
   \<and> r_remaining (view_reader_ctor v) = r_size (view_reader_ctor v)
   \<and> r_eof (view_reader_ctor v) = (r_remaining (view_reader_ctor v) = 0)
   \<and> \<not> r_error (view_reader_ctor v)
   \<and> view_reader_factory_open v pool 0 nosize = Some (pool, view_reader_ctor v)"
  by (simp add: view_reader_ctor_def string_reader_ctor_def reader_base_ctor_def reader_base.extend_def
       view_reader_factory_open_def Let_def nosize_neq0)


theorem fresh_view_reader_state_witness:
  "r_start_offset (view_reader_ctor example_view) = 0xFFFFFFFFFFFFFFFF
   \<and> r_size (view_reader_ctor example_view) = 2
   \<and> view_reader_factory_open example_view example_pool 0 nosize
       = Some (example_pool, view_reader_ctor example_view)"
  using fresh_view_reader_state [of example_view example_pool]
  by (simp add: nosize_def example_view_def)

section \<open>What the pipe delivers\<close>


lemma mem_read_Suc:
  "mem_read m a (Suc n) = mem_read m a n @ [m (a + of_nat n)]"
  by (simp add: mem_read_def)

lemma mem_read_append:
  "mem_read m a (j + k) = mem_read m a j @ mem_read m (a + of_nat j) k"
proof (induction k)
  case 0
  show ?case by (simp add: mem_read_def)
next
  case (Suc k)
  have "mem_read m a (j + Suc k) = mem_read m a (j + k) @ [m (a + of_nat (j + k))]"
    by (simp only: add_Suc_right mem_read_Suc)
  also have "\<dots> = mem_read m a j @ mem_read m (a + of_nat j) k @ [m (a + of_nat j + of_nat k)]"
    by (simp only: Suc.IH append_assoc of_nat_add add.assoc)
  also have "\<dots> = mem_read m a j @ mem_read m (a + of_nat j) (Suc k)"
    by (simp only: mem_read_Suc)
  finally show ?case .
qed

lemma view_get_buffer_step:
  assumes "\<not> r_error r" "\<not> r_eof r" "p_buffers pool \<noteq> []"
  shows "view_get_buffer m self h pool r =
     ((aio_ok, \<lparr>l_buffer = nb_append (last (p_buffers pool))
                   (mem_read m (view_src r) (unat (view_to_read pool r))),
               l_pool = True\<rparr>),
      pool\<lparr>p_buffers := butlast (p_buffers pool)\<rparr>,
      r\<lparr>r_remaining := r_remaining r - view_to_read pool r,
        r_eof := (r_remaining r - view_to_read pool r = 0),
        r_get_buffer_called := True\<rparr>)"
  using assms
  by (simp add: view_get_buffer_def view_do_get_buffer_def pool_get_buffer_def lease_bool_def
        view_to_read_def view_src_def Let_def)

lemma view_get_buffer_eof:
  assumes "\<not> r_error r" "r_eof r"
  shows "view_get_buffer m self h pool r = ((aio_ok, lease_default), pool, r)"
  using assms by (simp add: view_get_buffer_def view_do_get_buffer_def)

lemma buffer_writer_add_buffer_step:
  assumes "\<not> w_error w" "l_pool b" "nb_data (l_buffer b) \<noteq> []"
     and "\<not> bw_size_limit w - of_nat (length (bw_buffer w)) < of_nat (length (nb_data (l_buffer b)))"
  shows "fst (buffer_writer_add_buffer b h w) = aio_ok
     \<and> bw_buffer (snd (buffer_writer_add_buffer b h w)) = bw_buffer w @ nb_data (l_buffer b)
     \<and> bw_size_limit (snd (buffer_writer_add_buffer b h w)) = bw_size_limit w
     \<and> \<not> w_error (snd (buffer_writer_add_buffer b h w))"
  using assms
  by (simp add: buffer_writer_add_buffer_def add_buffer_def buffer_writer_do_add_buffer_def
       lease_bool_def nb_empty_def nb_size_def Let_def)

lemma lease_release_buffers:
  assumes "l_pool b" "nb_ptr (l_buffer b) \<noteq> 0"
  shows "p_buffers (lease_release b pool) = p_buffers pool @ [nb_clear (l_buffer b)]"
  using assms by (simp add: lease_release_def pool_release_def Let_def)


lemma view_to_read_bounds:
  assumes "r_remaining r \<noteq> 0" "nb_capacity (last (p_buffers pool)) \<noteq> 0"
  shows "0 < unat (view_to_read pool r)" "unat (view_to_read pool r) \<le> unat (r_remaining r)"
    "view_to_read pool r \<le> r_remaining r"
proof -
  show "0 < unat (view_to_read pool r)"
    using assms by (simp add: view_to_read_def unat_gt_0)
  show le: "view_to_read pool r \<le> r_remaining r"
    using assms by (auto simp add: view_to_read_def not_less nosize_def)
  then show "unat (view_to_read pool r) \<le> unat (r_remaining r)"
    by (simp add: word_le_nat_alt)
qed

lemma pipe_reads:
  assumes "\<not> r_error r" "r_eof r = (r_remaining r = 0)" "r_remaining r \<noteq> nosize"
    and "p_buffers pool \<noteq> []" "nb_data (last (p_buffers pool)) = []"
    and "nb_capacity (last (p_buffers pool)) \<noteq> 0" "nb_ptr (last (p_buffers pool)) \<noteq> 0"
    and "\<not> w_error w" "length (bw_buffer w) + unat (r_remaining r) \<le> unat (bw_size_limit w)"
    and "unat (r_remaining r) < fuel"
  shows "pipe_output (pipe fuel m pool r w)
         = Some (bw_buffer w @ mem_read m (view_src r) (unat (r_remaining r)))"
  using assms
proof (induction fuel arbitrary: pool r w)
  case 0
  then show ?case by simp
next
  case (Suc fuel)
  show ?case
  proof (cases "r_remaining r = 0")
    case True
    with Suc.prems have "view_get_buffer m 1 0 pool r = ((aio_ok, lease_default), pool, r)"
      by (simp add: view_get_buffer_eof)
    with True show ?thesis
      by (simp add: lease_default_def lease_bool_def pipe_output_def mem_read_def)
  next
    case False
    define t where "t = view_to_read pool r"
    define b where "b = \<lparr>l_buffer = nb_append (last (p_buffers pool))
                   (mem_read m (view_src r) (unat t)), l_pool = True\<rparr>"
    define pool1 where "pool1 = pool\<lparr>p_buffers := butlast (p_buffers pool)\<rparr>"
    define r1 where "r1 = r\<lparr>r_remaining := r_remaining r - t,
        r_eof := (r_remaining r - t = 0), r_get_buffer_called := True\<rparr>"
    define w1 where "w1 = snd (buffer_writer_add_buffer b 0 w)"
    define pool2 where "pool2 = lease_release b pool1"
    have t: "0 < unat t" "unat t \<le> unat (r_remaining r)" "t \<le> r_remaining r"
      unfolding t_def using False Suc.prems by (simp_all add: view_to_read_bounds)
    have get: "view_get_buffer m 1 0 pool r = ((aio_ok, b), pool1, r1)"
      unfolding b_def pool1_def r1_def t_def using Suc.prems False
      by (simp add: view_get_buffer_step)
    have bdata: "nb_data (l_buffer b) = mem_read m (view_src r) (unat t)"
      using Suc.prems by (simp add: b_def nb_append_def)
    have bne: "nb_data (l_buffer b) \<noteq> []"
      using t(1) by (simp add: bdata mem_read_def)
    have len: "unat (of_nat (length (bw_buffer w)) :: u64) = length (bw_buffer w)"
    proof -
      have "length (bw_buffer w) \<le> unat (bw_size_limit w)" using Suc.prems by simp
      also have "\<dots> < 2 ^ 64" using unsigned_less [of "bw_size_limit w"] by simp
      finally show ?thesis by (simp add: unat_of_nat)
    qed
    have room: "\<not> bw_size_limit w - of_nat (length (bw_buffer w))
                  < of_nat (length (nb_data (l_buffer b)))"
    proof -
      have "(of_nat (length (bw_buffer w)) :: u64) \<le> bw_size_limit w"
        using Suc.prems by (simp add: word_le_nat_alt len)
      then have "unat (bw_size_limit w - of_nat (length (bw_buffer w)))
                 = unat (bw_size_limit w) - length (bw_buffer w)"
        by (simp add: unat_sub len)
      with t(2) Suc.prems show ?thesis
        by (simp add: bdata word_less_nat_alt)
    qed
    have add: "fst (buffer_writer_add_buffer b 0 w) = aio_ok"
      "bw_buffer w1 = bw_buffer w @ mem_read m (view_src r) (unat t)"
      "bw_size_limit w1 = bw_size_limit w" "\<not> w_error w1"
    proof -
      have "\<not> w_error w" "l_pool b" using Suc.prems by (simp_all add: b_def)
      from buffer_writer_add_buffer_step [OF this bne room, of 0]
      show "fst (buffer_writer_add_buffer b 0 w) = aio_ok"
        "bw_buffer w1 = bw_buffer w @ mem_read m (view_src r) (unat t)"
        "bw_size_limit w1 = bw_size_limit w" "\<not> w_error w1"
        by (simp_all add: w1_def bdata)
    qed
    have bufs: "p_buffers pool2 = p_buffers pool"
    proof -
      have "p_buffers pool2 = butlast (p_buffers pool) @ [nb_clear (l_buffer b)]"
        unfolding pool2_def using Suc.prems
        by (simp add: lease_release_buffers b_def pool1_def nb_append_def)
      moreover have "nb_clear (l_buffer b) = last (p_buffers pool)"
        using Suc.prems by (simp add: b_def nb_clear_def nb_append_def)
      ultimately show ?thesis using Suc.prems by simp
    qed
    have step: "pipe (Suc fuel) m pool r w = pipe fuel m pool2 r1 w1"
      using get add(1)
      by (simp add: Let_def split_beta w1_def pool2_def lease_bool_def b_def)
    have rem1: "unat (r_remaining r1) = unat (r_remaining r) - unat t"
      using t(3) by (simp add: r1_def unat_sub)
    have ne1: "r_remaining r1 \<noteq> nosize"
    proof
      assume "r_remaining r1 = nosize"
      then have "unat (r_remaining r1) = 2 ^ 64 - 1" by (simp add: unat_nosize)
      moreover have "unat (r_remaining r) < 2 ^ 64"
        using unsigned_less [of "r_remaining r"] by simp
      ultimately show False using rem1 t(1) by simp
    qed
    have src1: "view_src r1 = view_src r + of_nat (unat t)"
      by (simp add: view_src_def r1_def)
    have "pipe_output (pipe fuel m pool2 r1 w1)
          = Some (bw_buffer w1 @ mem_read m (view_src r1) (unat (r_remaining r1)))"
    proof (rule Suc.IH)
      show "\<not> r_error r1" using Suc.prems by (simp add: r1_def)
      show "r_eof r1 = (r_remaining r1 = 0)" by (simp add: r1_def)
      show "r_remaining r1 \<noteq> nosize" by (rule ne1)
      show "p_buffers pool2 \<noteq> []" "nb_data (last (p_buffers pool2)) = []"
        "nb_capacity (last (p_buffers pool2)) \<noteq> 0" "nb_ptr (last (p_buffers pool2)) \<noteq> 0"
        using Suc.prems by (simp_all add: bufs)
      show "\<not> w_error w1" by (rule add)
      show "length (bw_buffer w1) + unat (r_remaining r1) \<le> unat (bw_size_limit w1)"
        using Suc.prems t(2) by (simp add: add rem1)
      show "unat (r_remaining r1) < fuel"
        using Suc.prems t(1) t(2) by (simp add: rem1)
    qed
    moreover have "mem_read m (view_src r) (unat (r_remaining r))
       = mem_read m (view_src r) (unat t) @ mem_read m (view_src r1) (unat (r_remaining r1))"
      using mem_read_append [of m "view_src r" "unat t" "unat (r_remaining r) - unat t"] t(2)
      by (simp add: src1 rem1)
    ultimately show ?thesis
      by (simp only: step add(2) append_assoc)
  qed
qed


lemma view_src_fresh: "view_src (view_reader_ctor v) = sv_data v - 1"
  by (simp add: view_src_def view_reader_ctor_def reader_base_ctor_def reader_base.extend_def
        Let_def nosize_def)

text \<open>
  Claim C1, evaluated on the code. With a pool whose next free buffer is empty, has a
  non-null address and a non-zero capacity, a view of a size other than \<^verbatim>\<open>nosize\<close>, an
  empty destination with a limit of at least that size and enough fuel, the pipe from a
  fresh view reader ends regularly, and the destination holds the bytes of memory from
  one byte before the view up to one byte before its end.
\<close>

theorem fresh_view_reader_pipe:
  assumes "p_buffers pool \<noteq> []" and "nb_data (last (p_buffers pool)) = []"
    and "nb_capacity (last (p_buffers pool)) \<noteq> 0" and "nb_ptr (last (p_buffers pool)) \<noteq> 0"
    and "sv_size v \<noteq> nosize" and "unat (sv_size v) \<le> unat limit"
    and "unat (sv_size v) < fuel"
  shows "pipe_output (pipe fuel m pool (view_reader_ctor v) (buffer_writer_ctor [] limit cb))
         = Some (mem_read m (sv_data v - 1) (unat (sv_size v)))"
proof -
  let ?r = "view_reader_ctor v" and ?w = "buffer_writer_ctor [] limit cb"
  have r: "\<not> r_error ?r" "r_eof ?r = (r_remaining ?r = 0)" "r_remaining ?r = sv_size v"
    by (simp_all add: view_reader_ctor_def reader_base_ctor_def reader_base.extend_def Let_def)
  have w: "\<not> w_error ?w" "bw_buffer ?w = []" "bw_size_limit ?w = limit"
    by (simp_all add: buffer_writer_ctor_def writer_base_ctor_def writer_base.extend_def)
  have "pipe_output (pipe fuel m pool ?r ?w)
        = Some (bw_buffer ?w @ mem_read m (view_src ?r) (unat (r_remaining ?r)))"
    using assms by (intro pipe_reads) (simp_all add: r w)
  then show ?thesis by (simp add: r w view_src_fresh)
qed

theorem fresh_view_reader_pipe_witness:
  "pipe_output (pipe 3 example_memory example_pool (view_reader_ctor example_view)
      (buffer_writer_ctor [] 2 False)) = Some [0, 0x41]
   \<and> mem_read example_memory (sv_data example_view) (unat (sv_size example_view)) = [0x41, 0x42]"
proof -
  have "pipe_output (pipe 3 example_memory example_pool (view_reader_ctor example_view)
      (buffer_writer_ctor [] 2 False))
      = Some (mem_read example_memory (sv_data example_view - 1) (unat (sv_size example_view)))"
    by (rule fresh_view_reader_pipe) (simp_all add: example_defs nosize_def)
  then show ?thesis
    by (simp add: example_defs mem_read_def upt_rec)
qed

text \<open>
  The reader that has been positioned by \<^verbatim>\<open>seek(0, nosize)\<close> delivers the bytes of the
  view: there \<^verbatim>\<open>start_offset_\<close> is 0.
\<close>

lemma seeked_view_reader_pipe:
  assumes "p_buffers pool \<noteq> []" and "nb_data (last (p_buffers pool)) = []"
    and "nb_capacity (last (p_buffers pool)) \<noteq> 0" and "nb_ptr (last (p_buffers pool)) \<noteq> 0"
    and "sv_size v \<noteq> nosize" and "unat (sv_size v) \<le> unat limit"
    and "unat (sv_size v) < fuel"
  shows "pipe_output (pipe fuel m pool (snd (snd (view_seek 1 0 nosize pool0 (view_reader_ctor v))))
            (buffer_writer_ctor [] limit cb))
         = Some (mem_read m (sv_data v) (unat (sv_size v)))"
proof -
  let ?fresh = "view_reader_ctor v"
  let ?r = "seek_set ?fresh 0 nosize" and ?w = "buffer_writer_ctor [] limit cb"
  have fresh: "r_start_offset ?fresh = nosize" "\<not> r_error ?fresh" "r_max_size ?fresh = sv_size v"
    by (simp_all add: view_reader_ctor_def reader_base_ctor_def reader_base.extend_def Let_def)
  have sk: "snd (snd (view_seek 1 0 nosize pool0 ?fresh)) = ?r"
    using fresh by (simp add: view_seek_def seek_unfold seek_offset_def seek_size_def
        seek_change_def nosize_neq0)
  have r: "\<not> r_error ?r" "r_eof ?r = (r_remaining ?r = 0)" "r_remaining ?r = sv_size v"
    "r_size ?r = sv_size v" "r_start_offset ?r = 0"
    using assms(5) by (simp_all add: seek_set_fields fresh)
  have v: "r_view ?r = v"
    by (simp add: seek_set_def view_reader_ctor_def reader_base_ctor_def reader_base.extend_def
          Let_def)
  have w: "\<not> w_error ?w" "bw_buffer ?w = []" "bw_size_limit ?w = limit"
    by (simp_all add: buffer_writer_ctor_def writer_base_ctor_def writer_base.extend_def)
  have "pipe_output (pipe fuel m pool ?r ?w)
        = Some (bw_buffer ?w @ mem_read m (view_src ?r) (unat (r_remaining ?r)))"
    using assms by (intro pipe_reads) (simp_all add: r w)
  then show ?thesis unfolding sk by (simp add: r w v view_src_def)
qed

section \<open>The layout of the pool\<close>


lemma unat_mult_u64:
  fixes x y :: u64
  assumes "unat x * unat y < 2 ^ 64"
  shows "unat (x * y) = unat x * unat y"
  using assms unat_mult_lem [of x y] by simp

lemma div_round_exact:
  fixes p q :: nat
  assumes "0 < p"
  shows "(p * q + p - 1) div p = q"
proof (rule div_nat_eqI)
  show "p * q \<le> p * q + p - 1" using assms by arith
  have "p * q + p - 1 < p * q + p" using assms by arith
  then show "p * q + p - 1 < p * Suc q" by simp
qed

lemma div_round_inexact:
  fixes p q r :: nat
  assumes "0 < r" and "r < p"
  shows "(p * q + r + p - 1) div p = Suc q"
proof (rule div_nat_eqI)
  have "p * q + p \<le> p * q + r + p - 1" using assms by arith
  then show "p * Suc q \<le> p * q + r + p - 1" by simp
  have "p * q + r + p - 1 < p * q + p + p" using assms by arith
  then show "p * q + r + p - 1 < p * Suc (Suc q)" by simp
qed

lemma div_round:
  fixes p q r :: nat
  assumes "r < p"
  shows "(p * q + r + p - 1) div p = (if r = 0 then q else Suc q)"
proof (cases "r = 0")
  case True
  with assms div_round_exact [of p q] show ?thesis by simp
next
  case False
  with assms div_round_inexact [of r p q] show ?thesis by simp
qed

lemma round_up_eq:
  assumes "0 < p"
  shows "round_up n p = (if n mod p = 0 then n else n + (p - n mod p))"
proof -
  have "(n + p - 1) div p = (p * (n div p) + n mod p + p - 1) div p"
    by simp
  also have "\<dots> = (if n mod p = 0 then n div p else Suc (n div p))"
    using assms by (intro div_round) simp
  finally have d: "(n + p - 1) div p = (if n mod p = 0 then n div p else Suc (n div p))" .
  show ?thesis
  proof (cases "n mod p = 0")
    case True
    with d have "round_up n p = n div p * p" by (simp add: round_up_def)
    also have "\<dots> = n" using True by (simp add: mod_0_imp_dvd)
    finally show ?thesis using True by simp
  next
    case False
    with d have "round_up n p = n div p * p + p" by (simp add: round_up_def)
    also have "n div p * p = n - n mod p" by (simp add: minus_mod_eq_div_mult)
    also have "n - n mod p + p = n + (p - n mod p)"
      using mod_less_divisor [OF assms, of n] mod_less_eq_dividend [of n p] by linarith
    finally show ?thesis using False by simp
  qed
qed

lemma round_up_ge: "0 < p \<Longrightarrow> n \<le> round_up n p"
  by (metis le_add1 order_refl round_up_eq)

lemma round_up_dvd: "p dvd round_up n p"
  by (simp add: round_up_def)

lemma unat_adjusted:
  assumes "psz \<noteq> 0" and "round_up (unat bs) (unat psz) < 2 ^ 64"
  shows "unat (adjusted_buffer_size bs psz) = round_up (unat bs) (unat psz)"
proof -
  have p: "0 < unat psz" using assms(1) by (simp add: unat_gt_0)
  have m: "unat (bs mod psz) = unat bs mod unat psz" by (simp add: unat_mod)
  show ?thesis
  proof (cases "bs mod psz = 0")
    case True
    then have "unat bs mod unat psz = 0" using m by simp
    with True p show ?thesis by (simp add: adjusted_buffer_size_def round_up_eq)
  next
    case False
    then have nz: "unat bs mod unat psz \<noteq> 0"
      using m unat_gt_0 [of "bs mod psz"] by simp
    have lt: "unat bs mod unat psz < unat psz" using p by simp
    then have "bs mod psz \<le> psz" by (simp add: word_le_nat_alt m)
    then have d: "unat (psz - bs mod psz) = unat psz - unat bs mod unat psz"
      by (simp add: unat_sub m)
    have "unat bs + unat (psz - bs mod psz) < 2 ^ 64"
      using assms(2) p nz by (simp add: d round_up_eq)
    then have "unat (bs + (psz - bs mod psz)) = unat bs + (unat psz - unat bs mod unat psz)"
      by (simp add: unat_add_u64 d)
    with False nz p show ?thesis by (simp add: adjusted_buffer_size_def round_up_eq)
  qed
qed

lemma length_pool_fill [simp]: "length (pool_fill n p step bs) = n"
  by (induction n arbitrary: p) simp_all

lemma nth_pool_fill:
  "i < n \<Longrightarrow> pool_fill n p step bs ! i
     = \<lparr>nb_ptr = p + of_nat i * step, nb_capacity = bs, nb_data = []\<rparr>"
proof (induction n arbitrary: p i)
  case 0
  then show ?case by simp
next
  case (Suc n)
  show ?case
  proof (cases i)
    case 0
    then show ?thesis by simp
  next
    case (Suc j)
    with Suc.prems have "j < n" by simp
    with Suc.IH [of j "p + step"] Suc show ?thesis
      by (simp add: algebra_simps)
  qed
qed


lemma pool_ctor_mapped:
  assumes "m \<noteq> 0" "\<not> (use_shm \<and> m = MAP_FAILED)"
  shows "aio_buffer_pool_ctor psz (Mapped m) cnt bs use_shm =
    \<lparr>p_memory_size = (adjusted_buffer_size (default_buffer_size bs) psz + psz) * cnt + psz,
     p_memory = m,
     p_buffers = pool_fill (unat cnt) (m + psz)
        (adjusted_buffer_size (default_buffer_size bs) psz + psz) (default_buffer_size bs),
     p_buffer_count = cnt, p_waiting = []\<rparr>"
  using assms by (auto simp add: aio_buffer_pool_ctor_def default_buffer_size_def Let_def)

lemma pool_layout_aux:
  fixes psz cnt bs m :: u64
  defines "b \<equiv> default_buffer_size bs"
  defines "R \<equiv> round_up (unat b) (unat psz)"
  assumes psz: "psz \<noteq> 0" and m: "m \<noteq> 0" "\<not> (use_shm \<and> m = MAP_FAILED)"
      and fits: "(R + unat psz) * unat cnt + unat psz < 2 ^ 64"
      and cnt: "1 \<le> unat cnt"
  shows "unat (p_memory_size (aio_buffer_pool_ctor psz (Mapped m) cnt bs use_shm))
           = (R + unat psz) * unat cnt + unat psz"
    and "length (p_buffers (aio_buffer_pool_ctor psz (Mapped m) cnt bs use_shm)) = unat cnt"
    and "i < unat cnt \<Longrightarrow>
           nb_capacity (p_buffers (aio_buffer_pool_ctor psz (Mapped m) cnt bs use_shm) ! i) = b"
    and "i < unat cnt \<Longrightarrow>
           unat (nb_ptr (p_buffers (aio_buffer_pool_ctor psz (Mapped m) cnt bs use_shm) ! i) - m)
             = unat psz + i * (R + unat psz)"
proof -
  let ?adj = "adjusted_buffer_size b psz"
  have p: "0 < unat psz" using psz by (simp add: unat_gt_0)
  have "(R + unat psz) * 1 \<le> (R + unat psz) * unat cnt"
    using cnt by (intro mult_le_mono2) simp
  then have le: "R + unat psz \<le> (R + unat psz) * unat cnt" by (simp only: mult_1_right)
  have Rlt: "R + unat psz < 2 ^ 64" "R < 2 ^ 64"
    using le fits by linarith+
  have adj: "unat ?adj = R" unfolding R_def using psz Rlt(2) by (simp add: unat_adjusted R_def)
  have step: "unat (?adj + psz) = R + unat psz"
    using Rlt(1) by (simp add: unat_add_u64 adj)
  have mul: "unat ((?adj + psz) * cnt) = (R + unat psz) * unat cnt"
    using fits by (simp add: unat_mult_u64 step)
  show "unat (p_memory_size (aio_buffer_pool_ctor psz (Mapped m) cnt bs use_shm))
           = (R + unat psz) * unat cnt + unat psz"
  proof -
    have "unat ((?adj + psz) * cnt) + unat psz < 2 ^ 64" using fits by (simp only: mul)
    then have "unat ((?adj + psz) * cnt + psz) = (R + unat psz) * unat cnt + unat psz"
      by (simp only: unat_add_u64 mul)
    then show ?thesis using m by (simp add: pool_ctor_mapped b_def)
  qed
  show "length (p_buffers (aio_buffer_pool_ctor psz (Mapped m) cnt bs use_shm)) = unat cnt"
    using m by (simp add: pool_ctor_mapped)
  show "nb_capacity (p_buffers (aio_buffer_pool_ctor psz (Mapped m) cnt bs use_shm) ! i) = b"
    if "i < unat cnt"
    using m that by (simp add: pool_ctor_mapped nth_pool_fill b_def)
  show "unat (nb_ptr (p_buffers (aio_buffer_pool_ctor psz (Mapped m) cnt bs use_shm) ! i) - m)
             = unat psz + i * (R + unat psz)" if i: "i < unat cnt"
  proof -
    have ptr: "nb_ptr (p_buffers (aio_buffer_pool_ctor psz (Mapped m) cnt bs use_shm) ! i) - m
       = psz + of_nat i * (?adj + psz)"
      using m i by (simp add: pool_ctor_mapped nth_pool_fill b_def)
    have "i * (R + unat psz) \<le> unat cnt * (R + unat psz)"
      using i by (intro mult_le_mono1) simp
    then have "i * (R + unat psz) \<le> (R + unat psz) * unat cnt"
      by (simp only: mult.commute)
    with fits have bound: "unat psz + i * (R + unat psz) < 2 ^ 64"
      by linarith
    have ilt: "i < 2 ^ 64" using i unsigned_less [of cnt, where ?'a = nat] by simp
    have "unat (of_nat i :: u64) = i" using ilt by (simp add: unat_of_nat)
    moreover from bound have "i * (R + unat psz) < 2 ^ 64" by simp
    ultimately have "unat (of_nat i * (?adj + psz)) = i * (R + unat psz)"
      by (simp add: unat_mult_u64 step)
    with bound show ?thesis by (simp add: ptr unat_add_u64)
  qed
qed


text \<open>
  Claim C7, amended. Let the page size be non-zero, the count at least 1, and the mapping
  succeed. When the layout \<open>(R + page) * count + page\<close>, with \<open>R\<close> the buffer size (the
  default for 0) rounded up to a multiple of the page size, fits into 64 bits, then the
  mapping length is that number, the free-list has \<open>count\<close> buffers, each empty with the
  buffer size as capacity, and buffer \<open>i\<close> starts at offset \<open>page + i * (R + page)\<close> from
  the base of the mapping, a multiple of the page size, and ends within the \<open>R\<close> bytes
  that precede the next guard page.
\<close>

theorem pool_layout:
  assumes "psz \<noteq> 0" and "1 \<le> unat cnt" and "m \<noteq> 0" and "\<not> (use_shm \<and> m = MAP_FAILED)"
    and "(round_up (unat (default_buffer_size bs)) (unat psz) + unat psz) * unat cnt + unat psz
           < 2 ^ 64"
  shows "unat (p_memory_size (aio_buffer_pool_ctor psz (Mapped m) cnt bs use_shm))
           = (round_up (unat (default_buffer_size bs)) (unat psz) + unat psz) * unat cnt + unat psz
     \<and> length (p_buffers (aio_buffer_pool_ctor psz (Mapped m) cnt bs use_shm)) = unat cnt
     \<and> (\<forall>i < unat cnt.
          nb_capacity (p_buffers (aio_buffer_pool_ctor psz (Mapped m) cnt bs use_shm) ! i)
            = default_buffer_size bs
        \<and> nb_data (p_buffers (aio_buffer_pool_ctor psz (Mapped m) cnt bs use_shm) ! i) = []
        \<and> unat (nb_ptr (p_buffers (aio_buffer_pool_ctor psz (Mapped m) cnt bs use_shm) ! i) - m)
            = unat psz + i * (round_up (unat (default_buffer_size bs)) (unat psz) + unat psz)
        \<and> unat psz
            dvd unat (nb_ptr (p_buffers (aio_buffer_pool_ctor psz (Mapped m) cnt bs use_shm) ! i) - m)
        \<and> unat (nb_ptr (p_buffers (aio_buffer_pool_ctor psz (Mapped m) cnt bs use_shm) ! i) - m)
              + unat (default_buffer_size bs)
            \<le> unat psz + i * (round_up (unat (default_buffer_size bs)) (unat psz) + unat psz)
                + round_up (unat (default_buffer_size bs)) (unat psz))"
proof -
  let ?P = "aio_buffer_pool_ctor psz (Mapped m) cnt bs use_shm"
  let ?R = "round_up (unat (default_buffer_size bs)) (unat psz)"
  note aux = pool_layout_aux [OF assms(1,3,4,5,2)]
  have p: "0 < unat psz" using assms(1) by (simp add: unat_gt_0)
  have per: "nb_capacity (p_buffers ?P ! i) = default_buffer_size bs
        \<and> nb_data (p_buffers ?P ! i) = []
        \<and> unat (nb_ptr (p_buffers ?P ! i) - m) = unat psz + i * (?R + unat psz)
        \<and> unat psz dvd unat (nb_ptr (p_buffers ?P ! i) - m)
        \<and> unat (nb_ptr (p_buffers ?P ! i) - m) + unat (default_buffer_size bs)
            \<le> unat psz + i * (?R + unat psz) + ?R" if i: "i < unat cnt" for i
  proof -
    have off: "unat (nb_ptr (p_buffers ?P ! i) - m) = unat psz + i * (?R + unat psz)"
      using aux(4) [OF i] .
    have "unat psz dvd ?R" by (rule round_up_dvd)
    then have d: "unat psz dvd unat psz + i * (?R + unat psz)" by simp
    have "nb_data (p_buffers ?P ! i) = []"
      using assms(3,4) i by (simp add: pool_ctor_mapped nth_pool_fill)
    with off d aux(3) [OF i] round_up_ge [OF p, of "unat (default_buffer_size bs)"]
    show ?thesis by simp
  qed
  from aux(1) aux(2) per show ?thesis by blast
qed

theorem pool_layout_witness:
  "unat (p_memory_size example_pool) = 270336
   \<and> length (p_buffers example_pool) = 1
   \<and> nb_capacity (p_buffers example_pool ! 0) = 262144
   \<and> unat (nb_ptr (p_buffers example_pool ! 0) - 0x100000) = 4096"
proof -
  have r: "round_up 262144 4096 = 262144" by (simp add: round_up_def)
  have "(1 :: u64) \<noteq> 0" "(1 :: nat) \<le> unat (1 :: u64)" "(0x100000 :: u64) \<noteq> 0"
    "\<not> (False \<and> (0x100000 :: u64) = MAP_FAILED)"
    "(round_up (unat (default_buffer_size 0)) (unat (4096 :: u64)) + unat (4096 :: u64))
        * unat (1 :: u64) + unat (4096 :: u64) < 2 ^ 64"
    by (simp_all add: default_buffer_size_def r)
  from pool_layout [where psz = 4096 and cnt = 1 and m = "0x100000" and use_shm = False and bs = 0]
  show ?thesis
    by (simp add: default_buffer_size_def r example_pool_def)
qed

text \<open>
  Claim C7 as stated fails where the layout does not fit: for one buffer of \<open>2\<^sup>6\<^sup>4 - 1\<close>
  bytes and pages of 4096 bytes the rounded size wraps to 0, the mapping is 8192 bytes
  long instead of the \<open>2\<^sup>6\<^sup>4 + 8192\<close> of the formula, and the one buffer of the
  free-list, at offset 4096, is declared with a capacity far beyond the mapping.
\<close>

theorem pool_layout_counterexample:
  "p_memory overflow_pool \<noteq> 0
   \<and> unat (p_memory_size overflow_pool) = 8192
   \<and> (round_up (unat (0xFFFFFFFFFFFFFFFF :: u64)) 4096 + 4096) * 1 + 4096 = 18446744073709559808
   \<and> length (p_buffers overflow_pool) = 1
   \<and> unat (nb_capacity (p_buffers overflow_pool ! 0)) = 18446744073709551615
   \<and> unat (nb_ptr (p_buffers overflow_pool ! 0) - p_memory overflow_pool) = 4096"
  by (simp add: overflow_pool_def aio_buffer_pool_ctor_def adjusted_buffer_size_def
        MAP_FAILED_def round_up_def Let_def)



section \<open>Finalizing a file writer\<close>

lemmas writer_defs = file_writer_factory_open_def file_open_writing_def file_seek_begin_def
  file_truncate_def file_close_def remove_file_def file_writer_ctor_def writer_base_ctor_def
  writer_base.extend_def threaded_writer.extend_def threaded_writer.fields_def
  file_writer.fields_def file_writer_worker_def file_writer_finalize_def finalize_def
  threaded_do_finalize_def file_writer_continue_finalize_def file_writer_set_mtime_def
  file_writer_close_def file_writer_do_close_def threaded_writer_do_close_def
  file_writer_add_buffer_def add_buffer_def threaded_do_add_buffer_def
  file_writer_preallocate_def no_file_def old_file_def

lemma example_writer_state:
  "example_writer =
     \<lparr>w_max_buffers = 4, w_buffers = [], w_error = False, w_finalizing = 0,
      w_progress_cb = False, w_progress = [], w_waiting = [], tw_cond = False,
      tw_task = True, tw_quit = False, tw_worker = Worker_waiting,
      fw_file = \<lparr>f_opened = True, f_position = 0, f_length = 0, f_exists = True\<rparr>,
      fw_fsync = False, fw_preallocated = False\<rparr>"
  by (simp add: example_writer_def writer_defs Let_def)

lemma example_fsync_writer_state:
  "example_fsync_writer =
     \<lparr>w_max_buffers = 4, w_buffers = [], w_error = False, w_finalizing = 0,
      w_progress_cb = False, w_progress = [], w_waiting = [], tw_cond = False,
      tw_task = True, tw_quit = False, tw_worker = Worker_waiting,
      fw_file = \<lparr>f_opened = True, f_position = 0, f_length = 0, f_exists = True\<rparr>,
      fw_fsync = True, fw_preallocated = False\<rparr>"
  by (simp add: example_fsync_writer_def writer_defs Let_def)

lemma example_offset_writer_state:
  "example_offset_writer =
     \<lparr>w_max_buffers = 4, w_buffers = [], w_error = False, w_finalizing = 0,
      w_progress_cb = False, w_progress = [], w_waiting = [], tw_cond = False,
      tw_task = True, tw_quit = False, tw_worker = Worker_waiting,
      fw_file = \<lparr>f_opened = True, f_position = 100, f_length = 100, f_exists = True\<rparr>,
      fw_fsync = False, fw_preallocated = False\<rparr>"
  by (simp add: example_offset_writer_def writer_defs Let_def)


text \<open>
  Claim C4, evaluated on the code. Take a file writer without error and without fsync whose
  file is open, whose queue is empty, that is not fully finalized and whose worker is
  blocked in its wait with no signal pending, which is where the worker of an idle writer
  stands. Then \<^verbatim>\<open>finalize\<close> returns \<^verbatim>\<open>ok\<close> at once and leaves \<^verbatim>\<open>finalizing_\<close> at
  1; it has not woken the worker, so the worker cannot move and nothing takes the writer
  to state 2; \<^verbatim>\<open>set_mtime\<close> returns \<^verbatim>\<open>false\<close> even when the file would accept the
  time, and calling \<^verbatim>\<open>finalize\<close> again changes nothing.
\<close>

theorem finalize_ok_without_fsync:
  assumes "\<not> w_error w" and "f_opened (fw_file w)" and "\<not> fw_fsync w"
    and "w_buffers w = []" and "w_finalizing w \<noteq> 2"
    and "tw_worker w = Worker_waiting" and "\<not> tw_cond w"
  shows "fst (file_writer_finalize h w) = aio_ok
     \<and> w_finalizing (snd (file_writer_finalize h w)) = 1
     \<and> file_writer_worker script fsync_ok pool (snd (file_writer_finalize h w))
           = (script, pool, snd (file_writer_finalize h w))
     \<and> \<not> file_writer_set_mtime True (snd (file_writer_finalize h w))
     \<and> fst (file_writer_finalize h (snd (file_writer_finalize h w))) = aio_ok
     \<and> snd (file_writer_finalize h (snd (file_writer_finalize h w)))
           = snd (file_writer_finalize h w)"
proof -
  have fin: "file_writer_finalize h w = (aio_ok, w\<lparr>w_finalizing := 1\<rparr>)"
    using assms
    by (simp add: file_writer_finalize_def finalize_def threaded_do_finalize_def
          file_writer_continue_finalize_def Let_def)
  have fin2: "file_writer_finalize h (w\<lparr>w_finalizing := 1\<rparr>) = (aio_ok, w\<lparr>w_finalizing := 1\<rparr>)"
    using assms
    by (simp add: file_writer_finalize_def finalize_def threaded_do_finalize_def
          file_writer_continue_finalize_def Let_def)
  show ?thesis
    using assms
    by (simp add: fin fin2 file_writer_worker_def file_writer_set_mtime_def)
qed

theorem finalize_ok_without_fsync_witness:
  "fst (file_writer_finalize 0 example_writer) = aio_ok
   \<and> w_finalizing (snd (file_writer_finalize 0 example_writer)) = 1
   \<and> file_writer_worker [] True example_pool (snd (file_writer_finalize 0 example_writer))
       = ([], example_pool, snd (file_writer_finalize 0 example_writer))
   \<and> \<not> file_writer_set_mtime True (snd (file_writer_finalize 0 example_writer))"
  using finalize_ok_without_fsync [of example_writer 0 "[]" True example_pool]
  by (simp add: example_writer_state)


text \<open>
  With fsync the handshake of the claim works: the first \<^verbatim>\<open>finalize\<close> returns
  \<^verbatim>\<open>wait\<close> and wakes the worker, the worker moves the writer to state 2, the second
  \<^verbatim>\<open>finalize\<close> returns \<^verbatim>\<open>ok\<close> and \<^verbatim>\<open>set_mtime\<close> succeeds. Before any
  \<^verbatim>\<open>finalize\<close> the writer is in state 0 and \<^verbatim>\<open>set_mtime\<close> returns \<^verbatim>\<open>false\<close>.
\<close>

lemma finalize_with_fsync:
  "fst (file_writer_finalize 0 example_fsync_writer) = aio_wait
   \<and> \<not> file_writer_set_mtime True (snd (file_writer_finalize 0 example_fsync_writer))
   \<and> w_finalizing (snd (snd (file_writer_worker [] True example_pool
         (snd (file_writer_finalize 0 example_fsync_writer))))) = 2
   \<and> fst (file_writer_finalize 0 (snd (snd (file_writer_worker [] True example_pool
         (snd (file_writer_finalize 0 example_fsync_writer)))))) = aio_ok
   \<and> file_writer_set_mtime True (snd (file_writer_finalize 0 (snd (snd (file_writer_worker [] True
         example_pool (snd (file_writer_finalize 0 example_fsync_writer)))))))"
  by (simp add: example_fsync_writer_state file_writer_finalize_def finalize_def
      threaded_do_finalize_def file_writer_continue_finalize_def file_writer_worker_def
      file_writer_set_mtime_def add_waiter_def signal_availibility_def Let_def)

lemma set_mtime_before_finalize:
  "w_finalizing w = 0 \<Longrightarrow> \<not> file_writer_set_mtime ok w"
  by (simp add: file_writer_set_mtime_def)



section \<open>Closing a file writer\<close>

lemma file_writer_close_file:
  "fw_file (snd (file_writer_close pool w)) = fw_file (file_writer_do_close w)"
  by (simp add: file_writer_close_def Let_def)


text \<open>
  What \<^verbatim>\<open>file_writer_factory::open\<close> returns for an offset other than 0 and \<open>2\<^sup>6\<^sup>4 - 1\<close>:
  the seek has answered the offset itself, so the offset is non-negative as
  \<^verbatim>\<open>int64_t\<close>, the file exists and the writer stands at the offset.
\<close>

lemma sint_minus1_iff: "sint (x :: u64) = - 1 \<longleftrightarrow> x = nosize"
proof
  assume "sint x = - 1"
  then have "sint x = sint (- 1 :: u64)" by simp
  then show "x = nosize" unfolding nosize_def by (rule signed_word_eqI)
next
  assume "x = nosize" then show "sint x = - 1" by (simp add: nosize_def)
qed

lemma file_writer_ctor_file:
  "f_position (fw_file (file_writer_ctor f spawn_ok fsync cb n)) = f_position f"
  "f_exists (fw_file (file_writer_ctor f spawn_ok fsync cb n)) = f_exists f"
  "w_finalizing (file_writer_ctor f spawn_ok fsync cb n) = 0"
  "w_buffers (file_writer_ctor f spawn_ok fsync cb n) = []"
  by (simp_all add: file_writer_ctor_def writer_base_ctor_def writer_base.extend_def
          threaded_writer.extend_def threaded_writer.fields_def file_writer.fields_def
          file_close_def Let_def)

lemma opened_at_offset:
  assumes "file_writer_factory_open os_ok spawn_ok fsync disk offset cb mb = Some w"
    and "offset \<noteq> 0" and "offset \<noteq> nosize"
  shows "f_position (fw_file w) = uint offset" "0 < f_position (fw_file w)"
    "f_exists (fw_file w)"
proof -
  define f where "f = file_open_writing os_ok Existing disk"
  define n where "n = (if mb = 0 then 4 else mb)"
  from assms(1,2) have opened: "f_opened f"
    and pos: "fst (file_seek_begin (sint offset) f) = sint offset"
    and w: "w = file_writer_ctor (snd (file_truncate (snd (file_seek_begin (sint offset) f))))
                  spawn_ok fsync cb n"
    by (simp_all add: file_writer_factory_open_def Let_def split_beta f_def n_def
          split: if_splits)
  have nonneg: "0 \<le> sint offset"
  proof (rule ccontr)
    assume "\<not> 0 \<le> sint offset"
    with pos have "sint offset = - 1" by (simp add: file_seek_begin_def)
    with assms(3) show False by (simp add: sint_minus1_iff)
  qed
  moreover have "sint offset < 2 ^ 64"
    using sint_lt [of offset] by simp
  ultimately have "take_bit 64 (sint offset) = sint offset"
    by (simp add: take_bit_int_eq_self)
  then have su: "sint offset = uint offset"
    using uint_sint [of offset] by simp
  have "uint offset \<noteq> 0" using assms(2) by (simp add: uint_0_iff)
  then have gt: "0 < uint offset" by (simp add: order_less_le)
  have ex: "f_exists f" using opened by (simp add: f_def file_open_writing_def split: if_splits)
  show "f_position (fw_file w) = uint offset"
    using nonneg su by (simp add: w file_writer_ctor_file file_seek_begin_def file_truncate_def)
  then show "0 < f_position (fw_file w)" using gt by simp
  show "f_exists (fw_file w)"
    using nonneg ex by (simp add: w file_writer_ctor_file file_seek_begin_def file_truncate_def)
qed

lemma close_keeps_positioned:
  assumes "f_exists (fw_file w)" and "f_position (fw_file w) \<noteq> 0"
  shows "f_exists (fw_file (snd (file_writer_close pool w)))"
  using assms
  by (simp add: file_writer_close_file file_writer_do_close_def threaded_writer_do_close_def
        file_truncate_def file_close_def remove_file_def Let_def)


text \<open>
  Claim C5, amended. When a file writer whose file is open is closed, the file is deleted
  exactly when \<^verbatim>\<open>finalize\<close> has not been requested and the file position is 0;
  otherwise it persists, with its length cut to the position when the writer was
  preallocated and unchanged when not. The handle is closed in both cases. A writer that
  \<^verbatim>\<open>file_writer_factory::open\<close> returns for an offset other than 0 and \<open>2\<^sup>6\<^sup>4 - 1\<close> stands
  at that offset with nothing queued and \<^verbatim>\<open>finalize\<close> not requested, and closing it
  leaves the file in place.
\<close>

theorem close_decides_on_position:
  "(f_opened (fw_file w) \<longrightarrow>
      f_exists (fw_file (snd (file_writer_close pool w)))
           = (f_exists (fw_file w) \<and> \<not> (w_finalizing w = 0 \<and> f_position (fw_file w) = 0))
     \<and> \<not> f_opened (fw_file (snd (file_writer_close pool w)))
     \<and> (\<not> (w_finalizing w = 0 \<and> f_position (fw_file w) = 0)
          \<longrightarrow> f_length (fw_file (snd (file_writer_close pool w)))
                = (if fw_preallocated w then f_position (fw_file w) else f_length (fw_file w))))
   \<and> (file_writer_factory_open os_ok spawn_ok fsync disk offset cb mb = Some ow
        \<and> offset \<noteq> 0 \<and> offset \<noteq> nosize
      \<longrightarrow> f_position (fw_file ow) = uint offset \<and> w_finalizing ow = 0 \<and> w_buffers ow = []
          \<and> f_exists (fw_file (snd (file_writer_close pool ow))))"
proof (intro conjI impI)
  assume "f_opened (fw_file w)"
  then show "f_exists (fw_file (snd (file_writer_close pool w)))
           = (f_exists (fw_file w) \<and> \<not> (w_finalizing w = 0 \<and> f_position (fw_file w) = 0))"
    by (simp add: file_writer_close_file file_writer_do_close_def threaded_writer_do_close_def
        file_truncate_def file_close_def remove_file_def Let_def)
next
  assume "f_opened (fw_file w)"
  then show "\<not> f_opened (fw_file (snd (file_writer_close pool w)))"
    by (simp add: file_writer_close_file file_writer_do_close_def threaded_writer_do_close_def
        file_truncate_def file_close_def remove_file_def Let_def)
next
  assume "f_opened (fw_file w)" and "\<not> (w_finalizing w = 0 \<and> f_position (fw_file w) = 0)"
  then show "f_length (fw_file (snd (file_writer_close pool w)))
                = (if fw_preallocated w then f_position (fw_file w) else f_length (fw_file w))"
    by (auto simp add: file_writer_close_file file_writer_do_close_def threaded_writer_do_close_def
        file_truncate_def file_close_def remove_file_def Let_def)
next
  assume a: "file_writer_factory_open os_ok spawn_ok fsync disk offset cb mb = Some ow
        \<and> offset \<noteq> 0 \<and> offset \<noteq> nosize"
  then have b: "file_writer_factory_open os_ok spawn_ok fsync disk offset cb mb = Some ow"
    "offset \<noteq> 0" "offset \<noteq> nosize"
    by simp_all
  have o: "f_position (fw_file ow) = uint offset" "0 < f_position (fw_file ow)"
    "f_exists (fw_file ow)"
    by (rule opened_at_offset [OF b])+
  show "f_position (fw_file ow) = uint offset" by (rule o)
  show "w_finalizing ow = 0" and "w_buffers ow = []"
    using a by (auto simp add: file_writer_factory_open_def Let_def split_beta file_writer_ctor_file
        split: if_splits)
  show "f_exists (fw_file (snd (file_writer_close pool ow)))"
    using o by (intro close_keeps_positioned) simp_all
qed

theorem close_decides_on_position_witness:
  "\<not> f_exists (fw_file (snd (file_writer_close example_pool example_writer)))
   \<and> f_exists (fw_file (snd (file_writer_close example_pool
        (snd (file_writer_finalize 0 example_writer)))))
   \<and> f_exists (fw_file (snd (file_writer_close example_pool
        (example_offset_writer\<lparr>fw_preallocated := True\<rparr>))))
   \<and> f_length (fw_file (snd (file_writer_close example_pool
        (example_offset_writer\<lparr>fw_preallocated := True\<rparr>)))) = 100
   \<and> f_position (fw_file (the (file_writer_factory_open True True False old_file 100 False 0)))
       = 100
   \<and> f_exists (fw_file (snd (file_writer_close example_pool
        (the (file_writer_factory_open True True False old_file 100 False 0)))))"
proof -
  note inst = close_decides_on_position [where os_ok = True and spawn_ok = True and fsync = False
      and disk = old_file and offset = 100 and cb = False and mb = 0 and pool = example_pool
      and ow = "the (file_writer_factory_open True True False old_file 100 False 0)"]
  have 1: "\<not> f_exists (fw_file (snd (file_writer_close example_pool example_writer)))"
    using inst [where w = example_writer, THEN conjunct1]
    by (simp add: example_writer_state)
  have fin: "snd (file_writer_finalize 0 example_writer) = example_writer\<lparr>w_finalizing := 1\<rparr>"
    by (simp add: example_writer_state file_writer_finalize_def finalize_def
          threaded_do_finalize_def file_writer_continue_finalize_def Let_def)
  have 2: "f_exists (fw_file (snd (file_writer_close example_pool
        (snd (file_writer_finalize 0 example_writer)))))"
    using inst [where w = "snd (file_writer_finalize 0 example_writer)", THEN conjunct1]
    by (simp add: fin) (simp add: example_writer_state)
  have 3: "f_exists (fw_file (snd (file_writer_close example_pool
        (example_offset_writer\<lparr>fw_preallocated := True\<rparr>))))
    \<and> f_length (fw_file (snd (file_writer_close example_pool
        (example_offset_writer\<lparr>fw_preallocated := True\<rparr>)))) = 100"
    using inst [where w = "example_offset_writer\<lparr>fw_preallocated := True\<rparr>", THEN conjunct1]
    by (simp add: example_offset_writer_state)
  have opened: "file_writer_factory_open True True False old_file 100 False 0
      = Some (the (file_writer_factory_open True True False old_file 100 False 0))"
    by (simp add: writer_defs Let_def)
  have 4: "f_position (fw_file (the (file_writer_factory_open True True False old_file 100 False 0)))
       = 100
   \<and> f_exists (fw_file (snd (file_writer_close example_pool
        (the (file_writer_factory_open True True False old_file 100 False 0)))))"
    using inst [where w = example_writer, THEN conjunct2] opened
    by (simp add: nosize_def)
  from 1 2 3 4 show ?thesis by simp
qed

text \<open>
  The offset \<open>2\<^sup>6\<^sup>4 - 1\<close> is \<open>-1\<close> as \<^verbatim>\<open>int64_t\<close>, which is also what a failed seek
  answers: the factory takes the failure for the position, and the writer stands at 0 on
  the file cut to no bytes.
\<close>

lemma opened_at_offset_nosize:
  "file_writer_factory_open True True False old_file nosize False 0 \<noteq> None
   \<and> f_position (fw_file (the (file_writer_factory_open True True False old_file nosize False 0))) = 0
   \<and> f_length (fw_file (the (file_writer_factory_open True True False old_file nosize False 0))) = 0"
  by (simp add: writer_defs Let_def nosize_def)


text \<open>
  Claim C5 as stated fails for a writer opened at a non-zero offset: opened at offset 100
  on a file of 200 bytes, given no data and not finalized, it leaves the file in place
  when it is closed.
\<close>

theorem close_at_offset_counterexample:
  "file_writer_factory_open True True False old_file 100 False 0 \<noteq> None
   \<and> w_buffers example_offset_writer = []
   \<and> w_progress example_offset_writer = []
   \<and> w_finalizing example_offset_writer = 0
   \<and> f_position (fw_file example_offset_writer) = 100
   \<and> f_exists (fw_file (snd (file_writer_close example_pool example_offset_writer)))"
  by (simp add: example_offset_writer_state)
     (simp add: writer_defs Let_def)


section \<open>Latched errors\<close>

lemma example_failed_reader_state:
  "r_error example_failed_reader
   \<and> r_buffers example_failed_reader
       = [\<lparr>l_buffer = \<lparr>nb_ptr = 0x101000, nb_capacity = 262144, nb_data = [1, 2, 3]\<rparr>,
           l_pool = True\<rparr>]
   \<and> r_max_buffers example_failed_reader = 4"
  by (simp add: example_failed_reader_def file_reader_entry_def example_stream_reader_def
        example_defs reader_defs release_all_def pool_get_buffer_def lease_bool_def
        nb_size_def nb_append_def nb_empty_def signal_availibility_def)


text \<open>
  Claim C3 as stated fails for a threaded reader with queued buffers: the reader on the
  example stream has its error latched by the failed second read, and its next
  \<^verbatim>\<open>get_buffer\<close> returns \<^verbatim>\<open>ok\<close> with the three bytes read before.
\<close>

theorem queued_buffers_before_error_counterexample:
  "r_error example_failed_reader
   \<and> fst (fst (threaded_get_buffer 0 example_failed_reader)) = aio_ok
   \<and> nb_data (l_buffer (snd (fst (threaded_get_buffer 0 example_failed_reader)))) = [1, 2, 3]"
  using example_failed_reader_state
  by (simp add: threaded_get_buffer_def threaded_do_get_buffer_def Let_def)


text \<open>
  Claim C3, amended. Once \<^verbatim>\<open>error_\<close> is set: \<^verbatim>\<open>get_buffer\<close> of a view reader
  returns \<^verbatim>\<open>error\<close>; \<^verbatim>\<open>get_buffer\<close> of a threaded reader returns \<^verbatim>\<open>error\<close> when its
  queue is empty and hands out the front of the queue with \<^verbatim>\<open>ok\<close> before that, the
  flag staying set; \<^verbatim>\<open>seek\<close> returns \<^verbatim>\<open>false\<close>; \<^verbatim>\<open>add_buffer\<close> of any writer
  returns \<^verbatim>\<open>error\<close> for every lease, the empty one included, and leaves the writer as
  it is; \<^verbatim>\<open>finalize\<close> of a file writer and of a buffer writer return \<^verbatim>\<open>error\<close>;
  \<^verbatim>\<open>preallocate\<close> of a file writer returns \<^verbatim>\<open>error\<close> and its \<^verbatim>\<open>set_mtime\<close>
  returns \<^verbatim>\<open>false\<close>.
\<close>

theorem latched_error:
  "(r_error vr \<longrightarrow> fst (fst (view_get_buffer m self h pool vr)) = aio_error
                  \<and> r_error (snd (snd (view_get_buffer m self h pool vr))))
   \<and> (r_error tr \<and> r_buffers tr = [] \<longrightarrow> fst (fst (threaded_get_buffer h tr)) = aio_error)
   \<and> (r_error tr \<and> r_buffers tr \<noteq> [] \<longrightarrow>
         fst (threaded_get_buffer h tr) = (aio_ok, hd (r_buffers tr)))
   \<and> (r_error tr \<longrightarrow> r_error (snd (threaded_get_buffer h tr)))
   \<and> (r_error r \<longrightarrow> \<not> fst (seek sk ds self ofs len pool r))
   \<and> (w_error w \<longrightarrow> add_buffer dab b h w = (aio_error, w))
   \<and> (w_error fw \<longrightarrow> file_writer_finalize h fw = (aio_error, fw)
                    \<and> file_writer_preallocate n fw = (aio_error, fw)
                    \<and> \<not> file_writer_set_mtime ok fw)
   \<and> (w_error bw \<longrightarrow> buffer_writer_finalize h bw = (aio_error, bw))"
proof (intro conjI impI)
  assume "r_error vr"
  then show "fst (fst (view_get_buffer m self h pool vr)) = aio_error"
    and "r_error (snd (snd (view_get_buffer m self h pool vr)))"
    by (simp_all add: view_get_buffer_def view_do_get_buffer_def)
next
  assume "r_error tr \<and> r_buffers tr = []"
  then show "fst (fst (threaded_get_buffer h tr)) = aio_error"
    by (simp add: threaded_get_buffer_def threaded_do_get_buffer_def)
next
  assume "r_error tr \<and> r_buffers tr \<noteq> []"
  then show "fst (threaded_get_buffer h tr) = (aio_ok, hd (r_buffers tr))"
    by (simp add: threaded_get_buffer_def threaded_do_get_buffer_def Let_def)
next
  assume "r_error tr"
  then show "r_error (snd (threaded_get_buffer h tr))"
    by (simp add: threaded_get_buffer_def threaded_do_get_buffer_def Let_def)
next
  assume "r_error r"
  then show "\<not> fst (seek sk ds self ofs len pool r)"
    by (simp add: seek_unfold)
next
  assume "w_error w"
  then show "add_buffer dab b h w = (aio_error, w)"
    by (simp add: add_buffer_def)
next
  assume "w_error fw"
  then show "file_writer_finalize h fw = (aio_error, fw)"
    and "file_writer_preallocate n fw = (aio_error, fw)"
    and "\<not> file_writer_set_mtime ok fw"
    by (simp_all add: file_writer_finalize_def finalize_def threaded_do_finalize_def
          file_writer_preallocate_def file_writer_set_mtime_def)
next
  assume "w_error bw"
  then show "buffer_writer_finalize h bw = (aio_error, bw)"
    by (simp add: buffer_writer_finalize_def finalize_def buffer_writer_do_finalize_def)
qed

lemma full_buffer_writer_state: "w_error full_buffer_writer"
  by (simp add: full_buffer_writer_def pipe_defs)

theorem latched_error_witness:
  "fst (fst (threaded_get_buffer 0 (snd (threaded_get_buffer 0 example_failed_reader)))) = aio_error
   \<and> fst (threaded_get_buffer 0 example_failed_reader)
       = (aio_ok, hd (r_buffers example_failed_reader))
   \<and> \<not> fst (file_reader_seek 1 0 nosize example_pool example_failed_reader)
   \<and> buffer_writer_add_buffer lease_default 0 full_buffer_writer = (aio_error, full_buffer_writer)
   \<and> buffer_writer_finalize 0 full_buffer_writer = (aio_error, full_buffer_writer)
   \<and> fst (fst (view_get_buffer example_memory 1 0 example_pool
          ((view_reader_ctor example_view)\<lparr>r_error := True\<rparr>))) = aio_error
   \<and> file_writer_finalize 0 (example_writer\<lparr>w_error := True\<rparr>)
       = (aio_error, example_writer\<lparr>w_error := True\<rparr>)"
proof -
  let ?r1 = "snd (threaded_get_buffer 0 example_failed_reader)"
  have r1: "r_error ?r1 \<and> r_buffers ?r1 = []"
    using example_failed_reader_state
    by (simp add: threaded_get_buffer_def threaded_do_get_buffer_def Let_def)
  have 1: "fst (fst (threaded_get_buffer 0 ?r1)) = aio_error"
    using latched_error [where tr = ?r1 and h = 0, THEN conjunct2, THEN conjunct1] r1 by simp
  have 2: "fst (threaded_get_buffer 0 example_failed_reader)
       = (aio_ok, hd (r_buffers example_failed_reader))"
    using latched_error [where tr = example_failed_reader and h = 0, THEN conjunct2, THEN conjunct2, THEN conjunct1] example_failed_reader_state
    by simp
  have 3: "\<not> fst (file_reader_seek 1 0 nosize example_pool example_failed_reader)"
    using latched_error [where r = example_failed_reader and sk = file_reader_seekable
        and ds = file_reader_do_seek and self = 1 and ofs = 0 and len = nosize
        and pool = example_pool, THEN conjunct2, THEN conjunct2, THEN conjunct2, THEN conjunct2, THEN conjunct1] example_failed_reader_state
    by (simp add: file_reader_seek_def)
  have 4: "buffer_writer_add_buffer lease_default 0 full_buffer_writer
             = (aio_error, full_buffer_writer)"
    using latched_error [where w = full_buffer_writer and dab = buffer_writer_do_add_buffer
        and b = lease_default and h = 0, THEN conjunct2, THEN conjunct2, THEN conjunct2, THEN conjunct2, THEN conjunct2, THEN conjunct1] full_buffer_writer_state
    by (simp add: buffer_writer_add_buffer_def)
  have 5: "buffer_writer_finalize 0 full_buffer_writer = (aio_error, full_buffer_writer)"
    using latched_error [where bw = full_buffer_writer and h = 0, THEN conjunct2, THEN conjunct2, THEN conjunct2, THEN conjunct2, THEN conjunct2, THEN conjunct2, THEN conjunct2] full_buffer_writer_state
    by simp
  have 6: "fst (fst (view_get_buffer example_memory 1 0 example_pool
          ((view_reader_ctor example_view)\<lparr>r_error := True\<rparr>))) = aio_error"
    using latched_error [where vr = "(view_reader_ctor example_view)\<lparr>r_error := True\<rparr>"
        and m = example_memory and self = 1 and h = 0 and pool = example_pool, THEN conjunct1]
    by simp
  have 7: "file_writer_finalize 0 (example_writer\<lparr>w_error := True\<rparr>)
       = (aio_error, example_writer\<lparr>w_error := True\<rparr>)"
    using latched_error [where fw = "example_writer\<lparr>w_error := True\<rparr>" and h = 0, THEN conjunct2, THEN conjunct2, THEN conjunct2, THEN conjunct2, THEN conjunct2, THEN conjunct2, THEN conjunct1]
    by simp
  from 1 2 3 4 5 6 7 show ?thesis by simp
qed


section \<open>Assigning factory holders\<close>

text \<open>
  Claim C8, evaluated on the code. When the source holder is empty, copy assignment leaves
  the store as it is, so a destination that held a factory still holds it; move
  assignment leaves the destination empty. Both kinds of holder behave alike.
\<close>

theorem copy_assign_from_moved_from_holder:
  "(rst op = None \<longrightarrow> reader_holder_copy_assign this op rst = rst
        \<and> \<not> holder_bool this (reader_holder_move_assign this op rst))
   \<and> (wst op = None \<longrightarrow> writer_holder_copy_assign this op wst = wst
        \<and> \<not> holder_bool this (writer_holder_move_assign this op wst))"
  by (simp add: reader_holder_copy_assign_def reader_holder_move_assign_def
        writer_holder_copy_assign_def writer_holder_move_assign_def holder_bool_def)

theorem copy_assign_from_moved_from_holder_witness:
  "example_reader_holders 2 = None
   \<and> holder_bool 1 example_reader_holders
   \<and> holder_bool 1 (reader_holder_copy_assign 1 2 example_reader_holders)
   \<and> \<not> holder_bool 1 (reader_holder_move_assign 1 2 example_reader_holders)
   \<and> example_writer_holders 2 = None
   \<and> holder_bool 1 example_writer_holders
   \<and> holder_bool 1 (writer_holder_copy_assign 1 2 example_writer_holders)
   \<and> \<not> holder_bool 1 (writer_holder_move_assign 1 2 example_writer_holders)"
proof -
  have e: "example_reader_holders 2 = None" "holder_bool 1 example_reader_holders"
    "example_writer_holders 2 = None" "holder_bool 1 example_writer_holders"
    by (simp_all add: example_reader_holders_def example_writer_holders_def
          reader_holder_move_ctor_def writer_holder_move_ctor_def holder_bool_def)
  with copy_assign_from_moved_from_holder [of example_reader_holders 2 1 example_writer_holders]
  show ?thesis by simp
qed

section \<open>The long form of an IPv6 address\<close>

text \<open>What \<^verbatim>\<open>find\<close> and \<^verbatim>\<open>rfind\<close> answer.\<close>

lemma find_first_Some:
  "find_first c xs = Some k \<Longrightarrow> k < length xs \<and> xs ! k = c \<and> (\<forall>j<k. xs ! j \<noteq> c)"
proof (induction xs arbitrary: k)
  case Nil
  then show ?case by simp
next
  case (Cons x xs)
  show ?case
  proof (cases "x = c")
    case True
    with Cons.prems show ?thesis by simp
  next
    case False
    with Cons.prems obtain k' where k': "find_first c xs = Some k'" "k = Suc k'"
      by (auto simp add: map_option_case split: option.splits)
    from Cons.IH [OF k'(1)] False k'(2) show ?thesis
      by (auto simp add: nth_Cons split: nat.splits)
  qed
qed

lemma find_first_None: "find_first c xs = None \<longleftrightarrow> c \<notin> set xs"
  by (induction xs) auto

lemma find_first_least:
  assumes "k < length xs" "xs ! k = c" "\<forall>j<k. xs ! j \<noteq> c"
  shows "find_first c xs = Some k"
proof (cases "find_first c xs")
  case None
  with assms show ?thesis by (auto simp add: find_first_None)
next
  case (Some k')
  from find_first_Some [OF Some] assms have "\<not> k' < k" "\<not> k < k'" by auto
  with Some show ?thesis by simp
qed

lemma sv_find_eq:
  assumes "start \<le> p" "p < length s" "s ! p = c" "\<forall>i. start \<le> i \<and> i < p \<longrightarrow> s ! i \<noteq> c"
  shows "sv_find s c start = p"
proof -
  have "find_first c (drop start s) = Some (p - start)"
    using assms by (intro find_first_least) auto
  with assms show ?thesis by (simp add: sv_find_def)
qed

lemma sv_find_npos:
  assumes "\<forall>i. start \<le> i \<and> i < length s \<longrightarrow> s ! i \<noteq> c"
  shows "sv_find s c start = npos"
proof -
  have "c \<notin> set (drop start s)"
    using assms by (auto simp add: in_set_conv_nth)
  then show ?thesis by (simp add: sv_find_def find_first_None [symmetric])
qed

lemma sv_find_bounds:
  assumes "start \<le> q" "q < length s" "s ! q = c"
  shows "start \<le> sv_find s c start \<and> sv_find s c start \<le> q \<and> s ! sv_find s c start = c"
proof -
  have "c \<in> set (drop start s)"
    using assms by (auto simp add: in_set_conv_nth intro!: exI [of _ "q - start"])
  then obtain k where k: "find_first c (drop start s) = Some k"
    by (cases "find_first c (drop start s)") (auto simp add: find_first_None)
  from find_first_Some [OF k] have 1: "k < length s - start" "s ! (start + k) = c"
    and 2: "\<forall>j<k. s ! (start + j) \<noteq> c" by auto
  have "\<not> q - start < k" using 2 assms by auto
  then have "start + k \<le> q" using assms by simp
  with k 1 show ?thesis by (simp add: sv_find_def)
qed

lemma sv_rfind_bounds:
  assumes "q \<le> p" "q < length s" "s ! q = c"
  shows "q \<le> sv_rfind s c p \<and> sv_rfind s c p \<le> p \<and> sv_rfind s c p < length s
         \<and> s ! sv_rfind s c p = c"
proof -
  define t where "t = take (Suc p) s"
  have tl: "length t \<le> Suc p" "length t \<le> length s" by (simp_all add: t_def)
  have tn: "t ! i = s ! i" if "i < length t" for i using that by (simp add: t_def)
  have len: "q < length t" using assms by (simp add: t_def)
  have tq: "t ! q = c" using assms len by (simp add: tn)
  then have "c \<in> set (rev t)" using len by (metis nth_mem set_rev)
  then obtain k where k: "find_first c (rev t) = Some k"
    by (cases "find_first c (rev t)") (auto simp add: find_first_None)
  from find_first_Some [OF k] have kl: "k < length t" and kc: "rev t ! k = c"
    and least: "\<forall>j<k. rev t ! j \<noteq> c" by auto
  define r where "r = length t - 1 - k"
  have r: "sv_rfind s c p = r" using k by (simp add: sv_rfind_def r_def t_def)
  have rl: "r < length t" using kl by (simp add: r_def)
  have rc: "t ! r = c" using kc kl by (simp add: rev_nth r_def)
  have "q \<le> r"
  proof (rule ccontr)
    assume "\<not> q \<le> r"
    then have "length t - 1 - q < k" using len kl by (simp add: r_def)
    with least have "rev t ! (length t - 1 - q) \<noteq> c" by simp
    moreover have "rev t ! (length t - 1 - q) = t ! q"
      using len by (simp add: rev_nth)
    ultimately show False using tq by simp
  qed
  moreover have "r \<le> p" "r < length s" using rl tl by simp_all
  moreover have "s ! r = c" using rc rl by (simp add: tn)
  ultimately show ?thesis by (simp add: r)
qed


text \<open>
  Where the two loops stop on an input with a double colon: the first loop not behind the
  second colon of the first double colon, the second loop behind the first colon of a
  later one.
\<close>

lemma left_loop_start:
  assumes "left_loop s e left start buf = Some (left', start', buf')"
    and "length s < npos" and "i + 1 < length s"
    and "s ! i = CHR '':''" and "s ! (i + 1) = CHR '':''"
    and "start \<le> i + 1" and "left = 0 \<longrightarrow> start \<le> i"
  shows "start' \<le> i + 1"
  using assms
proof (induction s e left start buf rule: left_loop.induct)
  case (1 s e left start buf)
  note eq = left_loop.simps [of s e left start buf]
  show ?case
  proof (cases "left < 8 \<and> start < e")
    case False
    with "1.prems"(1) eq have "start' = start" by simp
    with "1.prems" show ?thesis by simp
  next
    case loop: True
    define pos0 where "pos0 = sv_find s CHR '':'' start"
    define pos where "pos = (if pos0 = npos then e else pos0)"
    have colon: "start \<le> pos0 \<and> pos0 \<le> i + 1 \<and> s ! pos0 = CHR '':''"
      unfolding pos0_def using "1.prems" by (intro sv_find_bounds) simp_all
    then have "pos0 < npos" using "1.prems" by simp
    then have pos: "pos = pos0" by (simp add: pos_def)
    show ?thesis
    proof (cases "pos = start")
      case True
      with loop eq "1.prems"(1) have "start' = (if left = 0 then start + 1 else start)"
        by (simp add: pos0_def [symmetric] pos_def [symmetric] Let_def split: if_splits)
      with "1.prems" show ?thesis by (simp split: if_splits)
    next
      case False
      have le: "pos \<le> i"
      proof (cases "start \<le> i")
        case True
        then have "sv_find s CHR '':'' start \<le> i"
          using "1.prems" sv_find_bounds [of start i s "CHR '':''"] by simp
        then show ?thesis by (simp add: pos pos0_def)
      next
        case F: False
        with "1.prems" have "start = i + 1" by simp
        then have "sv_find s CHR '':'' start = start"
          using "1.prems" sv_find_bounds [of start start s "CHR '':''"] by simp
        with False show ?thesis by (simp add: pos pos0_def)
      qed
      from False loop eq "1.prems"(1)
      obtain g where g: "\<not> 4 < pos - start"
        "convert_group (take (pos - start) (drop start s)) = Some g"
        "left_loop s e (left + 1) (pos + 1)
           (write_group buf (5 * left + (4 - (pos - start))) g) = Some (left', start', buf')"
        by (simp add: pos0_def [symmetric] pos_def [symmetric] Let_def
              split: if_splits option.splits)
      show ?thesis
      proof (rule "1.IH" [OF loop pos0_def pos_def False refl g(1) g(2) g(3)])
        show "length s < npos" "i + 1 < length s" "s ! i = CHR '':''" "s ! (i + 1) = CHR '':''"
          using "1.prems" by simp_all
        show "pos + 1 \<le> i + 1" using le by simp
        show "left + 1 = 0 \<longrightarrow> pos + 1 \<le> i" by simp
      qed
    qed
  qed
qed


lemma right_loop_end:
  assumes "right_loop s start left right e buf = Some (e', buf')"
    and "length s < npos" and "e \<le> length s"
    and "s ! j = CHR '':''" and "s ! (j + 1) = CHR '':''"
    and "start \<le> j" and "j + 1 < e \<or> (j + 1 = e \<and> 0 < left + right)"
  shows "start < e'"
  using assms
proof (induction s start left right e buf rule: right_loop.induct)
  case (1 s start left right e buf)
  show ?case
  proof (cases "left + right < 8 \<and> start < e")
    case False
    with "1.prems"(1) have "e' = e" by (simp add: right_loop.simps [of s start left right e buf])
    with "1.prems" show ?thesis by auto
  next
    case loop: True
    define e1 where "e1 = e - 1"
    define pos where "pos = sv_rfind s CHR '':'' e1"
    define group_length where "group_length = (e1 + 2 ^ 64 - pos) mod 2 ^ 64"
    define chars where "chars = (if pos = npos then [] else take (e1 - pos) (drop (pos + 1) s))"
    have eq: "right_loop s start left right e buf =
        (if group_length = 0 then
           (if left \<noteq> 0 \<or> right \<noteq> 0 then None else Some (e1, buf))
         else if group_length > 4 then None
         else
           (case convert_group chars of
              None \<Rightarrow> None
            | Some g \<Rightarrow>
                right_loop s start left (right + 1) pos
                  (write_group buf (5 * (8 - right) - 1 - length g) g)))"
      unfolding e1_def pos_def group_length_def chars_def
      by (subst right_loop.simps) (simp only: loop Let_def if_True simp_thms)
    have e1: "e1 < length s" "j \<le> e1" using "1.prems" by (auto simp add: e1_def)
    have found: "j \<le> pos \<and> pos \<le> e1 \<and> pos < length s \<and> s ! pos = CHR '':''"
      unfolding pos_def using "1.prems" e1 by (intro sv_rfind_bounds) simp_all
    have small: "e1 - pos < 2 ^ 64"
      using e1 "1.prems" by (simp add: npos_def)
    have "e1 + 2 ^ 64 - pos = 2 ^ 64 + (e1 - pos)" using found by simp
    then have "group_length = (2 ^ 64 + (e1 - pos)) mod 2 ^ 64"
      by (simp only: group_length_def)
    also have "\<dots> = e1 - pos" using small by (simp only: mod_add_self1 mod_less)
    finally have gl: "group_length = e1 - pos" .
    show ?thesis
    proof (cases "j + 1 < e")
      case False
      with "1.prems" have last: "j + 1 = e" "0 < left + right" by auto
      then have "e1 = j" by (simp add: e1_def)
      with found have "pos = e1" by simp
      then have "group_length = 0" by (simp add: gl)
      with last(2) "1.prems"(1) show ?thesis by (simp add: eq)
    next
      case True
      then have "j + 1 \<le> e1" by (simp add: e1_def)
      then have far: "j + 1 \<le> pos"
        using "1.prems" e1 sv_rfind_bounds [of "j + 1" e1 s "CHR '':''"] by (simp add: pos_def)
      show ?thesis
      proof (cases "group_length = 0")
        case True
        with "1.prems"(1) have "e' = e1" by (simp add: eq split: if_splits)
        with True far gl found "1.prems" show ?thesis by simp
      next
        case False
        with "1.prems"(1)
        obtain g where g: "\<not> 4 < group_length" "convert_group chars = Some g"
          "right_loop s start left (right + 1) pos
             (write_group buf (5 * (8 - right) - 1 - length g) g) = Some (e', buf')"
          by (simp add: eq split: if_splits option.splits)
        show ?thesis
        proof (rule "1.IH" [OF loop e1_def pos_def group_length_def chars_def False g(1) g(2) g(3)])
          show "length s < npos" "s ! j = CHR '':''" "s ! (j + 1) = CHR '':''" "start \<le> j"
            using "1.prems" by simp_all
          show "pos \<le> length s" using found by simp
          show "j + 1 < pos \<or> j + 1 = pos \<and> 0 < left + (right + 1)" using far by auto
        qed
      qed
    qed
  qed
qed


lemma two_double_colons_rejected:
  assumes i: "double_colon_at s i" and j: "double_colon_at s j" and ij: "i < j"
  shows "get_ipv6_long_form s = []"
proof -
  define bracket where "bracket = (s \<noteq> [] \<and> hd s = CHR ''['')"
  define start where "start = (if bracket then 1 else 0 :: nat)"
  define e where "e = (if bracket then length s - 1 else length s)"
  have unfold: "get_ipv6_long_form s =
     (if bracket \<and> last s \<noteq> CHR '']'' then []
      else if e - start < 2 \<or> e - start > 39 then []
      else (case left_loop s e 0 start zero_address of
              None \<Rightarrow> []
            | Some (left_segments, start1, buf1) \<Rightarrow>
                (case right_loop s start1 left_segments 0 e buf1 of
                   None \<Rightarrow> []
                 | Some (e1, buf2) \<Rightarrow> if start1 < e1 then [] else buf2)))"
    by (unfold get_ipv6_long_form_def bracket_def start_def e_def Let_def) auto
  show ?thesis
  proof (cases "(bracket \<and> last s \<noteq> CHR '']'') \<or> e - start < 2 \<or> e - start > 39")
    case True
    then show ?thesis by (auto simp add: unfold)
  next
    case False
    then have ok: "\<not> (bracket \<and> last s \<noteq> CHR '']'')" "\<not> e - start < 2" "\<not> e - start > 39"
      by simp_all
    have len: "length s < npos" using ok by (simp add: e_def start_def npos_def split: if_splits)
    have si: "start \<le> i"
    proof (cases bracket)
      case True
      then have "s ! 0 = CHR ''[''" by (auto simp add: bracket_def hd_conv_nth)
      then have "s ! 0 \<noteq> CHR '':''" by simp
      moreover have "s ! i = CHR '':''" using i by (simp add: double_colon_at_def)
      ultimately have "i \<noteq> 0" by (cases i) auto
      with True show ?thesis by (simp add: start_def)
    next
      case False
      then show ?thesis by (simp add: start_def)
    qed
    have je: "j + 1 < e"
    proof (cases bracket)
      case True
      with ok have "last s = CHR '']''" by simp
      moreover have "s \<noteq> []" using True by (simp add: bracket_def)
      ultimately have "s ! (length s - 1) = CHR '']''" by (simp add: last_conv_nth)
      then have "s ! (length s - 1) \<noteq> CHR '':''" by simp
      moreover have "s ! (j + 1) = CHR '':''" using j by (simp add: double_colon_at_def)
      ultimately have "j + 1 \<noteq> length s - 1" by auto
      moreover have "j + 1 < length s" using j by (simp add: double_colon_at_def)
      ultimately have "j + 1 < length s - 1" by linarith
      with True show ?thesis by (simp add: e_def)
    next
      case False
      with j show ?thesis by (simp add: e_def double_colon_at_def)
    qed
    show ?thesis
    proof (cases "left_loop s e 0 start zero_address")
      case None
      then show ?thesis using ok by (simp add: unfold)
    next
      case (Some res)
      obtain left start1 buf1 where res: "res = (left, start1, buf1)" by (cases res)
      have s1: "start1 \<le> i + 1"
      proof (rule left_loop_start [OF Some [unfolded res] len])
        show "i + 1 < length s" "s ! i = CHR '':''" "s ! (i + 1) = CHR '':''"
          using i by (simp_all add: double_colon_at_def)
        show "start \<le> i + 1" using si by simp
        show "(0 :: nat) = 0 \<longrightarrow> start \<le> i" using si by simp
      qed
      show ?thesis
      proof (cases "right_loop s start1 left 0 e buf1")
        case None
        with Some res ok show ?thesis by (simp add: unfold)
      next
        case (Some res2)
        obtain e1 buf2 where res2: "res2 = (e1, buf2)" by (cases res2)
        have "start1 < e1"
        proof (rule right_loop_end [OF Some [unfolded res2] len])
          show "e \<le> length s" by (simp add: e_def)
          show "s ! j = CHR '':''" "s ! (j + 1) = CHR '':''"
            using j by (simp_all add: double_colon_at_def)
          show "start1 \<le> j" using s1 ij by simp
          show "j + 1 < e \<or> j + 1 = e \<and> 0 < left + 0" using je by simp
        qed
        with Some res2 \<open>left_loop s e 0 start zero_address = Some res\<close> res ok
        show ?thesis by (simp add: unfold)
      qed
    qed
  qed
qed


text \<open>The function on an address in long form.\<close>

lemma char_of_eq_iff: "char_of (n :: nat) = c \<longleftrightarrow> n mod 256 = of_char c"
proof
  assume "char_of n = c"
  then have "of_char (char_of n) = (of_char c :: nat)" by simp
  then show "n mod 256 = of_char c" by simp
next
  assume "n mod 256 = of_char c"
  then have "char_of (n mod 256) = char_of (of_char c :: nat)" by simp
  then show "char_of n = c" by (simp add: char_of_mod_256)
qed

lemma convert_char_hex: "hex_digit c \<Longrightarrow> convert_char c = Some (lower_case c)"
  unfolding hex_digit_def by (elim disjE | simp add: convert_char_def lower_case_def)+

lemma hex_digit_not_sep: "hex_digit c \<Longrightarrow> c \<noteq> CHR '':'' \<and> c \<noteq> CHR ''[''"
  by (auto simp add: hex_digit_def)

lemma lower_case_colon: "lower_case CHR '':'' = CHR '':''"
  by (simp add: lower_case_def)

lemma convert_group_hex:
  "\<forall>c \<in> set g. hex_digit c \<Longrightarrow> convert_group g = Some (map lower_case g)"
  by (induction g) (simp_all add: convert_char_hex)

lemma long_form_from_nth:
  "long_form_from i cs \<longleftrightarrow>
     i + length cs = 39
     \<and> (\<forall>j<length cs. if (i + j) mod 5 = 4 then cs ! j = CHR '':'' else hex_digit (cs ! j))"
proof (induction cs arbitrary: i)
  case Nil
  show ?case by simp
next
  case (Cons c cs)
  show ?case
    by (auto simp add: Cons.IH nth_Cons' less_Suc_eq_0_disj)
qed


lemma long_form_nth:
  assumes "long_form L"
  shows "length L = 39"
    and "\<And>i. i < 39 \<Longrightarrow> i mod 5 = 4 \<Longrightarrow> L ! i = CHR '':''"
    and "\<And>i. i < 39 \<Longrightarrow> i mod 5 \<noteq> 4 \<Longrightarrow> hex_digit (L ! i)"
  using assms by (simp_all add: long_form_def long_form_from_nth)

lemma long_form_colon_iff:
  assumes "long_form L" and "i < 39"
  shows "L ! i = CHR '':'' \<longleftrightarrow> i mod 5 = 4"
  using long_form_nth(2,3) [OF assms] hex_digit_not_sep [of "L ! i"] by auto

lemma write_group_length:
  "p + length g \<le> length buf \<Longrightarrow> length (write_group buf p g) = length buf"
  by (simp add: write_group_def)

lemma write_group_nth:
  assumes "p + length g \<le> length buf" and "i < length buf"
  shows "write_group buf p g ! i = (if p \<le> i \<and> i < p + length g then g ! (i - p) else buf ! i)"
  using assms by (auto simp add: write_group_def nth_append)

lemma left_loop_long_form_step:
  assumes L: "long_form L" and k: "k < 8"
  shows "left_loop L 39 k (5 * k) buf =
         left_loop L 39 (k + 1) (5 * (k + 1))
           (write_group buf (5 * k) (map lower_case (take 4 (drop (5 * k) L))))"
proof -
  note len = long_form_nth(1) [OF L]
  define pos0 where "pos0 = sv_find L CHR '':'' (5 * k)"
  define pos where "pos = (if pos0 = npos then 39 else pos0)"
  have nocolon: "L ! i \<noteq> CHR '':''" if "5 * k \<le> i" "i < 5 * k + 4" for i
  proof -
    from that k have "i < 39" "i mod 5 \<noteq> 4" by presburger+
    then show ?thesis by (simp add: long_form_colon_iff [OF L])
  qed
  have pos: "pos = 5 * k + 4"
  proof (cases "k = 7")
    case True
    have "pos0 = npos"
      unfolding pos0_def using nocolon True by (intro sv_find_npos) (simp add: len)
    with True show ?thesis by (simp add: pos_def)
  next
    case False
    with k have lt: "5 * k + 4 < 39" by simp
    moreover have "(5 * k + 4) mod 5 = 4" by presburger
    ultimately have "L ! (5 * k + 4) = CHR '':''" by (simp add: long_form_colon_iff [OF L])
    then have "pos0 = 5 * k + 4"
      unfolding pos0_def using nocolon lt by (intro sv_find_eq) (simp_all add: len)
    moreover have "5 * k + 4 \<noteq> npos" using lt by (simp add: npos_def)
    ultimately show ?thesis by (simp add: pos_def)
  qed
  have "hex_digit c" if "c \<in> set (take 4 (drop (5 * k) L))" for c
  proof -
    from that obtain j where j: "j < 4" "c = L ! (5 * k + j)"
      using k by (auto simp add: in_set_conv_nth len)
    from j(1) k have "5 * k + j < 39" "(5 * k + j) mod 5 \<noteq> 4" by presburger+
    then show ?thesis using long_form_nth(3) [OF L] j(2) by simp
  qed
  then have g: "convert_group (take 4 (drop (5 * k) L))
                = Some (map lower_case (take 4 (drop (5 * k) L)))"
    by (intro convert_group_hex) simp
  have loop: "k < 8 \<and> 5 * k < 39" using k by simp
  have eq: "left_loop L 39 k (5 * k) buf =
     (if pos = 5 * k then
        (if k = 0 then
           (if L ! (5 * k + 1) \<noteq> CHR '':'' then None else Some (k, pos + 1, buf))
         else Some (k, pos, buf))
      else if pos - 5 * k > 4 then None
      else
        (case convert_group (take (pos - 5 * k) (drop (5 * k) L)) of
           None \<Rightarrow> None
         | Some g \<Rightarrow>
             left_loop L 39 (k + 1) (pos + 1)
               (write_group buf (5 * k + (4 - (pos - 5 * k))) g)))"
    unfolding pos_def pos0_def
    by (subst left_loop.simps) (simp only: loop Let_def if_True simp_thms)
  have ne: "pos \<noteq> 5 * k" and ng: "\<not> pos - 5 * k > 4" and gl: "pos - 5 * k = 4"
    and wp: "5 * k + (4 - (pos - 5 * k)) = 5 * k" and p1: "pos + 1 = 5 * (k + 1)"
    by (simp_all add: pos)
  have "left_loop L 39 k (5 * k) buf =
        (case convert_group (take (pos - 5 * k) (drop (5 * k) L)) of
           None \<Rightarrow> None
         | Some g \<Rightarrow>
             left_loop L 39 (k + 1) (pos + 1)
               (write_group buf (5 * k + (4 - (pos - 5 * k))) g))"
    by (simp only: eq ne ng if_False)
  moreover have "5 * k + (4 - 4) = 5 * k" by simp
  ultimately show ?thesis by (simp only: gl g option.case p1)
qed

lemma left_loop_long_form:
  assumes L: "long_form L" and "k \<le> 8" and "length buf = 39"
  shows "\<exists>buf'. left_loop L 39 k (5 * k) buf = Some (8, 40, buf') \<and> length buf' = 39
           \<and> (\<forall>i<39. buf' ! i = (if 5 * k \<le> i \<and> i mod 5 \<noteq> 4 then lower_case (L ! i)
                                   else buf ! i))"
  using assms(2,3)
proof (induction "8 - k" arbitrary: k buf)
  case 0
  then have "k = 8" by simp
  then show ?case using "0.prems" by (simp add: left_loop.simps)
next
  case (Suc n)
  then have k: "k < 8" by simp
  note len = long_form_nth(1) [OF L]
  define g where "g = map lower_case (take 4 (drop (5 * k) L))"
  define buf1 where "buf1 = write_group buf (5 * k) g"
  have gl: "length g = 4" using k by (simp add: g_def len)
  have gn: "g ! j = lower_case (L ! (5 * k + j))" if "j < 4" for j
    using that k by (simp add: g_def len)
  have b1: "length buf1 = 39"
    and b1n: "\<And>i. i < 39 \<Longrightarrow> buf1 ! i = (if 5 * k \<le> i \<and> i < 5 * k + 4 then g ! (i - 5 * k) else buf ! i)"
    unfolding buf1_def using k Suc.prems gl
    by (simp_all add: write_group_nth write_group_length)
  have step: "left_loop L 39 k (5 * k) buf = left_loop L 39 (k + 1) (5 * (k + 1)) buf1"
    using left_loop_long_form_step [OF L k, of buf] by (simp only: buf1_def g_def)
  have "8 - (k + 1) = n" using Suc.hyps(2) by simp
  from Suc.hyps(1) [OF this [symmetric] _ b1] k
  obtain buf' where r: "left_loop L 39 (k + 1) (5 * (k + 1)) buf1 = Some (8, 40, buf')"
    "length buf' = 39"
    "\<forall>i<39. buf' ! i = (if 5 * (k + 1) \<le> i \<and> i mod 5 \<noteq> 4 then lower_case (L ! i) else buf1 ! i)"
    by auto
  have "buf' ! i = (if 5 * k \<le> i \<and> i mod 5 \<noteq> 4 then lower_case (L ! i) else buf ! i)"
    if i: "i < 39" for i
  proof (cases "5 * k \<le> i \<and> i < 5 * k + 4")
    case True
    then have m: "i mod 5 \<noteq> 4" "\<not> 5 * (k + 1) \<le> i" by presburger+
    from True have j: "i - 5 * k < 4" "5 * k + (i - 5 * k) = i" by linarith+
    have "buf' ! i = buf1 ! i" using r(3) i m by simp
    also have "\<dots> = g ! (i - 5 * k)" using b1n [OF i] True by simp
    also have "\<dots> = lower_case (L ! i)" using gn [OF j(1)] by (simp only: j(2))
    finally show ?thesis using True m by simp
  next
    case False
    then have e: "(5 * (k + 1) \<le> i \<and> i mod 5 \<noteq> 4) = (5 * k \<le> i \<and> i mod 5 \<noteq> 4)"
      by presburger
    have b: "buf1 ! i = buf ! i" using b1n [OF i] by (simp only: False if_False)
    have "buf' ! i = (if 5 * (k + 1) \<le> i \<and> i mod 5 \<noteq> 4 then lower_case (L ! i)
                      else buf1 ! i)"
      using r(3) i by blast
    then show ?thesis by (simp only: e b)
  qed
  with r(1,2) step show ?case by simp
qed

lemma zero_address_colon:
  assumes "i < 39" and "i mod 5 = 4"
  shows "zero_address ! i = CHR '':''"
proof -
  from assms have "i = 4 \<or> i = 9 \<or> i = 14 \<or> i = 19 \<or> i = 24 \<or> i = 29 \<or> i = 34"
    by presburger
  then show ?thesis by (elim disjE) (simp_all add: zero_address_def)
qed

lemma long_form_lower_case:
  assumes L: "long_form L"
  shows "get_ipv6_long_form L = map lower_case L"
proof -
  note len = long_form_nth(1) [OF L]
  have z: "length zero_address = 39" by (simp add: zero_address_def)
  from left_loop_long_form [OF L _ z, of 0]
  obtain buf' where r: "left_loop L 39 0 0 zero_address = Some (8, 40, buf')" "length buf' = 39"
    "\<forall>i<39. buf' ! i = (if i mod 5 \<noteq> 4 then lower_case (L ! i) else zero_address ! i)"
    by auto
  have "buf' = map lower_case L"
  proof (rule nth_equalityI)
    show "length buf' = length (map lower_case L)" by (simp add: r len)
    fix i assume "i < length buf'"
    then have i: "i < 39" by (simp add: r)
    show "buf' ! i = map lower_case L ! i"
    proof (cases "i mod 5 = 4")
      case True
      with i r(3) have "buf' ! i = CHR '':''" by (simp add: zero_address_colon)
      moreover have "L ! i = CHR '':''" using True i by (simp add: long_form_colon_iff [OF L])
      ultimately show ?thesis using i by (simp add: len lower_case_colon)
    next
      case False
      with i r(3) show ?thesis by (simp add: len)
    qed
  qed
  moreover have "right_loop L 40 8 0 39 buf' = Some (39, buf')"
    by (simp add: right_loop.simps)
  moreover have "L \<noteq> []" using len by auto
  moreover have "hd L \<noteq> CHR ''[''"
  proof -
    have "hex_digit (L ! 0)" using long_form_nth(3) [OF L, of 0] by simp
    then have "L ! 0 \<noteq> CHR ''[''" by (simp add: hex_digit_not_sep)
    with \<open>L \<noteq> []\<close> show ?thesis by (simp add: hd_conv_nth)
  qed
  ultimately show ?thesis
    by (simp add: get_ipv6_long_form_def len r(1))
qed

lemmas ipv6_eval = left_loop.simps right_loop.simps get_ipv6_long_form_def sv_find_def
  sv_rfind_def npos_def convert_char_def write_group_def zero_address_def Let_def

lemma lower_case_hex: "hex_digit c \<Longrightarrow> hex_digit (lower_case c)"
  unfolding hex_digit_def by (elim disjE | simp add: lower_case_def char_of_eq_iff)+

lemma long_form_map_lower_case:
  assumes "long_form L"
  shows "long_form (map lower_case L)"
proof -
  note n = long_form_nth [OF assms]
  have a: "lower_case (L ! j) = CHR '':''" if "j < 39" "j mod 5 = 4" for j
    using n(2) [OF that] by (simp add: lower_case_colon)
  have b: "hex_digit (lower_case (L ! j))" if "j < 39" "j mod 5 \<noteq> 4" for j
    using n(3) [OF that] by (rule lower_case_hex)
  show ?thesis by (simp add: long_form_def long_form_from_nth n(1) a b)
qed

lemma too_long_rejected:
  assumes "39 < length t"
    and "\<not> (hd t = CHR ''['' \<and> last t = CHR '']'' \<and> length t \<le> 41)"
  shows "get_ipv6_long_form t = []"
proof (cases "hd t = CHR ''[''")
  case False
  with assms(1) show ?thesis by (simp add: get_ipv6_long_form_def)
next
  case True
  show ?thesis
  proof (cases "last t = CHR '']''")
    case False
    with True assms(1) show ?thesis by (auto simp add: get_ipv6_long_form_def)
  next
    case l: True
    with True assms have len: "41 < length t" by simp
    then have "39 < length t - 1 - 1" "39 < length t" by simp_all
    then show ?thesis by (simp add: get_ipv6_long_form_def Let_def)
  qed
qed


text \<open>
  Claim C9, amended. \<^verbatim>\<open>get_ipv6_long_form\<close> maps an address in long form to itself with
  its digits in lower case, so to itself when it is written in lower case, and applying
  the function again changes nothing. It returns the empty string for an input with a
  double colon at two different positions, and for an input of more than 39 characters
  unless the input is enclosed in brackets and has at most 41 characters.
\<close>

theorem ipv6_long_form_canonical:
  "(long_form L \<longrightarrow> get_ipv6_long_form L = map lower_case L)
   \<and> (long_form L \<and> map lower_case L = L \<longrightarrow> get_ipv6_long_form L = L)
   \<and> (long_form L \<longrightarrow> get_ipv6_long_form (get_ipv6_long_form L) = get_ipv6_long_form L)
   \<and> (double_colon_at s i \<and> double_colon_at s j \<and> i < j \<longrightarrow> get_ipv6_long_form s = [])
   \<and> (39 < length t \<and> \<not> (hd t = CHR ''['' \<and> last t = CHR '']'' \<and> length t \<le> 41)
        \<longrightarrow> get_ipv6_long_form t = [])"
proof (intro conjI impI)
  assume "long_form L"
  then show "get_ipv6_long_form L = map lower_case L" by (rule long_form_lower_case)
next
  assume "long_form L \<and> map lower_case L = L"
  then show "get_ipv6_long_form L = L" by (simp add: long_form_lower_case)
next
  assume L: "long_form L"
  then have "long_form (map lower_case L)" by (rule long_form_map_lower_case)
  then have "get_ipv6_long_form (map lower_case L) = map lower_case (map lower_case L)"
    by (rule long_form_lower_case)
  also have "\<dots> = map lower_case L"
  proof -
    have "lower_case (lower_case c) = lower_case c" for c
      by (cases "c \<in> set ''ABCDEF''") (auto simp add: lower_case_def char_of_eq_iff)
    then show ?thesis by simp
  qed
  finally show "get_ipv6_long_form (get_ipv6_long_form L) = get_ipv6_long_form L"
    by (simp add: long_form_lower_case [OF L])
next
  assume "double_colon_at s i \<and> double_colon_at s j \<and> i < j"
  then show "get_ipv6_long_form s = []" by (intro two_double_colons_rejected [of s i j]) simp_all
next
  assume "39 < length t \<and> \<not> (hd t = CHR ''['' \<and> last t = CHR '']'' \<and> length t \<le> 41)"
  then show "get_ipv6_long_form t = []" by (intro too_long_rejected) simp_all
qed

theorem ipv6_long_form_canonical_witness:
  "get_ipv6_long_form ''2001:0db8:0000:0000:0000:ff00:0042:8329''
     = ''2001:0db8:0000:0000:0000:ff00:0042:8329''
   \<and> get_ipv6_long_form ''2001:0DB8:0000:0000:0000:FF00:0042:8329''
     = ''2001:0db8:0000:0000:0000:ff00:0042:8329''
   \<and> get_ipv6_long_form ''1::2::3'' = []
   \<and> get_ipv6_long_form ''0000:0000:0000:0000:0000:0000:0000:00001'' = []"
proof -
  note inst = ipv6_long_form_canonical [where s = "''1::2::3''" and i = 1 and j = 4
      and t = "''0000:0000:0000:0000:0000:0000:0000:00001''"]
  have 1: "get_ipv6_long_form ''2001:0db8:0000:0000:0000:ff00:0042:8329''
     = ''2001:0db8:0000:0000:0000:ff00:0042:8329''"
    using inst [where L = "''2001:0db8:0000:0000:0000:ff00:0042:8329''", THEN conjunct2, THEN conjunct1]
    by (simp add: long_form_def hex_digit_def lower_case_def)
  have 2: "get_ipv6_long_form ''2001:0DB8:0000:0000:0000:FF00:0042:8329''
     = ''2001:0db8:0000:0000:0000:ff00:0042:8329''"
    using inst [where L = "''2001:0DB8:0000:0000:0000:FF00:0042:8329''", THEN conjunct1]
    by (simp add: long_form_def hex_digit_def lower_case_def char_of_eq_iff)
  have 3: "get_ipv6_long_form ''1::2::3'' = []"
    using inst [where L = "[]", THEN conjunct2, THEN conjunct2, THEN conjunct2, THEN conjunct1]
    by (simp add: double_colon_at_def)
  have 4: "get_ipv6_long_form ''0000:0000:0000:0000:0000:0000:0000:00001'' = []"
    using inst [where L = "[]", THEN conjunct2, THEN conjunct2, THEN conjunct2, THEN conjunct2]
    by simp
  from 1 2 3 4 show ?thesis by simp
qed

text \<open>
  Claim C9 as stated fails on an address in brackets, which has 41 characters and is
  accepted, the brackets not being part of the result, and on an address in long form
  written with capital digits, which comes back in lower case.
\<close>

theorem bracketed_long_form_counterexample:
  "39 < length ''[0000:0000:0000:0000:0000:0000:0000:0001]''
   \<and> get_ipv6_long_form ''[0000:0000:0000:0000:0000:0000:0000:0001]''
       = ''0000:0000:0000:0000:0000:0000:0000:0001''
   \<and> long_form ''ABCD:0000:0000:0000:0000:0000:0000:0001''
   \<and> get_ipv6_long_form ''ABCD:0000:0000:0000:0000:0000:0000:0001''
       = ''abcd:0000:0000:0000:0000:0000:0000:0001''"
proof -
  have 1: "get_ipv6_long_form ''[0000:0000:0000:0000:0000:0000:0000:0001]''
       = ''0000:0000:0000:0000:0000:0000:0000:0001''"
    by (simp add: ipv6_eval char_of_eq_iff)
  have 2: "long_form ''ABCD:0000:0000:0000:0000:0000:0000:0001''"
    by (simp add: long_form_def hex_digit_def)
  have 3: "get_ipv6_long_form ''ABCD:0000:0000:0000:0000:0000:0000:0001''
       = ''abcd:0000:0000:0000:0000:0000:0000:0001''"
    by (simp add: ipv6_eval char_of_eq_iff)
  from 1 2 3 show ?thesis by simp
qed

end
